theory Spec2Isabelle
  imports Main "HOL-Library.Multiset"
begin

section \<open>The vocabulary data transformer (src/lib/dataTransformer.js)\<close>

text \<open>
  The transformer reshapes the flat cell grid of a worksheet into topics of word records
  and computes statistics over them. The embedding follows the source function by
  function. JavaScript values are a tagged scalar; strings are lists of code units, read
  as Latin-1 (code units below 256), which is where \<open>trim\<close> and \<open>toLowerCase\<close> are
  modelled exactly; numbers are integers, printed in decimal as \<open>String\<close> prints them
  below \<open>10^21\<close>.
\<close>

subsection \<open>JavaScript scalars and strings\<close>

datatype jsval = JStr string | JNum int | JBool bool | JNull | JUndefined

text \<open>Truthiness, as \<open>if (v)\<close>, \<open>!v\<close> and \<open>v || d\<close> test it.\<close>

fun truthy :: "jsval \<Rightarrow> bool" where
  "truthy (JStr s) = (s \<noteq> [])"
| "truthy (JNum n) = (n \<noteq> 0)"
| "truthy (JBool b) = b"
| "truthy JNull = False"
| "truthy JUndefined = False"

text \<open>
  \<open>String.prototype.trim\<close> strips white space and line terminators from both ends:
  TAB, LF, VT, FF, CR, SPACE and NBSP are the ones below 256.
\<close>

definition isWhiteSpace :: "char \<Rightarrow> bool" where
  "isWhiteSpace c = (of_char c \<in> {9, 10, 11, 12, 13, 32, 160 :: nat})"

definition trim :: "string \<Rightarrow> string" where
  "trim s = rev (dropWhile isWhiteSpace (rev (dropWhile isWhiteSpace s)))"

text \<open>
  \<open>String.prototype.toLowerCase\<close> on Latin-1: \<open>A\<close>..\<open>Z\<close> and the accented capitals
  \<open>0xC0\<close>..\<open>0xDE\<close> (the multiplication sign \<open>0xD7\<close> apart) move up by 32.
\<close>

definition lowerChar :: "char \<Rightarrow> char" where
  "lowerChar c =
     (let n = (of_char c :: nat)
      in if (65 \<le> n \<and> n \<le> 90) \<or> (192 \<le> n \<and> n \<le> 222 \<and> n \<noteq> 215)
         then char_of (n + 32) else c)"

definition toLowerCase :: "string \<Rightarrow> string" where
  "toLowerCase s = map lowerChar s"

definition digitChar :: "nat \<Rightarrow> char" where
  "digitChar d = char_of (48 + d)"

fun digitsOf :: "nat \<Rightarrow> string" where
  "digitsOf n = (if n < 10 then [digitChar n] else digitsOf (n div 10) @ [digitChar (n mod 10)])"

declare digitsOf.simps [simp del]

definition numberToString :: "int \<Rightarrow> string" where
  "numberToString n = (if n < 0 then CHR ''-'' # digitsOf (nat (- n)) else digitsOf (nat n))"

text \<open>\<open>String(value)\<close> for a value that is neither null nor undefined is what the source
  applies; the two remaining cases are given as JavaScript gives them.\<close>

fun String_js :: "jsval \<Rightarrow> string" where
  "String_js (JStr s) = s"
| "String_js (JNum n) = numberToString n"
| "String_js (JBool b) = (if b then ''true'' else ''false'')"
| "String_js JNull = ''null''"
| "String_js JUndefined = ''undefined''"

subsection \<open>Rows and cells\<close>

type_synonym row = "jsval list"

text \<open>
  \<open>getCell(row, index)\<close>: the empty string beyond the row's end and for a null or
  undefined cell, otherwise the cell as a trimmed string.
\<close>

definition getCell :: "row \<Rightarrow> nat \<Rightarrow> string" where
  "getCell row index =
     (if index \<ge> length row then ''''
      else (let v = row ! index
            in if v \<noteq> JNull \<and> v \<noteq> JUndefined then trim (String_js v) else ''''))"

definition isEmptyRow :: "row \<Rightarrow> bool" where
  "isEmptyRow row =
     (if length row = 0 then True
      else list_all (\<lambda>cell. cell = JNull \<or> cell = JUndefined \<or> trim (String_js cell) = '''') row)"

definition isHeaderRow :: "row \<Rightarrow> bool" where
  "isHeaderRow row =
     (if length row = 0 then False
      else (let firstCell = toLowerCase (getCell row 0);
                secondCell = toLowerCase (getCell row 1)
            in firstCell = ''order'' \<or> secondCell = ''topic'' \<or> secondCell = ''session''))"

subsection \<open>Word records\<close>

text \<open>
  \<open>parseWord\<close> fills every field from \<open>getCell\<close>, so all of them are strings there;
  the aggregators read \<open>flag\<close> through \<open>(word.flag || '').toString()\<close>, so the field
  is kept as a scalar.
\<close>

record wordRecord =
  rowNumber :: nat
  order :: string
  flag :: jsval
  word :: string
  partOfSpeech :: string
  pronunciation :: string
  meaning :: string
  exampleSentence :: string
  synonyms :: string
  dayOfWeek :: string
  date :: string

definition parseWord :: "row \<Rightarrow> nat \<Rightarrow> wordRecord option" where
  "parseWord row rowNum =
     (let w = getCell row 3
      in if w = '''' \<or> trim w = '''' then None
         else Some \<lparr> rowNumber = rowNum,
                     order = getCell row 0,
                     flag = JStr (getCell row 2),
                     word = trim w,
                     partOfSpeech = getCell row 4,
                     pronunciation = getCell row 5,
                     meaning = getCell row 6,
                     exampleSentence = getCell row 7,
                     synonyms = getCell row 8,
                     dayOfWeek = getCell row 9,
                     date = getCell row 10 \<rparr>)"

subsection \<open>Statistics\<close>

record flagCounts =
  new :: nat
  known :: nat
  forgotten :: nat
  learned :: nat

text \<open>
  The per-topic statistics object has \<open>totalWords\<close> and \<open>byFlag\<close>; the worksheet-level
  one has \<open>totalTopics\<close> as well, so it is the extension of the former.
\<close>

record topicStatistics =
  totalWords :: nat
  byFlag :: flagCounts

record worksheetStatistics = topicStatistics +
  totalTopics :: nat

record topic =
  name :: string
  startRow :: nat
  words :: "wordRecord list"
  statistics :: "topicStatistics option"

text \<open>
  \<open>calculateStatistics\<close>: the two nested \<open>forEach\<close> loops update \<open>stats\<close> in place;
  here \<open>stats\<close> is threaded through two folds.
\<close>

definition calculateStatistics :: "topic list \<Rightarrow> worksheetStatistics" where
  "calculateStatistics topics =
     fold (\<lambda>t stats.
        fold (\<lambda>w stats.
           (let f = trim (toLowerCase (String_js (if truthy (flag w) then flag w else JStr '''')))
            in if f = ''n'' then stats\<lparr>byFlag := (byFlag stats)\<lparr>new := new (byFlag stats) + 1\<rparr>\<rparr>
               else if f = ''y'' then stats\<lparr>byFlag := (byFlag stats)\<lparr>known := known (byFlag stats) + 1\<rparr>\<rparr>
               else if f = ''?'' then stats\<lparr>byFlag := (byFlag stats)\<lparr>forgotten := forgotten (byFlag stats) + 1\<rparr>\<rparr>
               else if f = ''ok'' then stats\<lparr>byFlag := (byFlag stats)\<lparr>learned := learned (byFlag stats) + 1\<rparr>\<rparr>
               else stats))
          (words t) (stats\<lparr>totalWords := totalWords stats + length (words t)\<rparr>))
       topics
       \<lparr> totalWords = 0,
         byFlag = \<lparr> new = 0, known = 0, forgotten = 0, learned = 0 \<rparr>,
         totalTopics = length topics \<rparr>"

text \<open>\<open>calculateTopicStatistics\<close> is a second copy of the loops, without \<open>totalTopics\<close>.\<close>

definition calculateTopicStatistics :: "topic list \<Rightarrow> topicStatistics" where
  "calculateTopicStatistics topics =
     fold (\<lambda>t stats.
        fold (\<lambda>w stats.
           (let f = trim (toLowerCase (String_js (if truthy (flag w) then flag w else JStr '''')))
            in if f = ''n'' then stats\<lparr>byFlag := (byFlag stats)\<lparr>new := new (byFlag stats) + 1\<rparr>\<rparr>
               else if f = ''y'' then stats\<lparr>byFlag := (byFlag stats)\<lparr>known := known (byFlag stats) + 1\<rparr>\<rparr>
               else if f = ''?'' then stats\<lparr>byFlag := (byFlag stats)\<lparr>forgotten := forgotten (byFlag stats) + 1\<rparr>\<rparr>
               else if f = ''ok'' then stats\<lparr>byFlag := (byFlag stats)\<lparr>learned := learned (byFlag stats) + 1\<rparr>\<rparr>
               else stats))
          (words t) (stats\<lparr>totalWords := totalWords stats + length (words t)\<rparr>))
       topics
       \<lparr> totalWords = 0,
         byFlag = \<lparr> new = 0, known = 0, forgotten = 0, learned = 0 \<rparr> \<rparr>"

subsection \<open>The row grouping parser\<close>

text \<open>
  \<open>if (word && word.word) currentTopic.words.push(word)\<close>, which the loop body has in
  each of its three branches.
\<close>

definition pushWord :: "topic \<Rightarrow> wordRecord option \<Rightarrow> topic" where
  "pushWord t r =
     (case r of
        None \<Rightarrow> t
      | Some w \<Rightarrow> if word w \<noteq> '''' then t\<lparr>words := words t @ [w]\<rparr> else t)"

text \<open>
  The body of the \<open>for\<close> loop of \<open>parseTopics\<close> at index \<open>i\<close>, on the loop's state:
  the \<open>topics\<close> array and the \<open>currentTopic\<close> slot (\<open>None\<close> for \<open>null\<close>).
  \<open>continue\<close> returns the state as it is.
\<close>

definition parseRow :: "row \<Rightarrow> nat \<Rightarrow> topic list \<times> topic option \<Rightarrow> topic list \<times> topic option" where
  "parseRow row i st =
     (case st of (topics, currentTopic) \<Rightarrow>
        if isEmptyRow row then (topics, currentTopic)
        else
          (let topicName = getCell row 1
           in if topicName \<noteq> '''' \<and> trim topicName \<noteq> '''' then
                (let topics' = (case currentTopic of Some t \<Rightarrow> topics @ [t] | None \<Rightarrow> topics);
                     newTopic = \<lparr> name = trim topicName, startRow = i + 1, words = [],
                                   statistics = None \<rparr>
                 in (topics', Some (pushWord newTopic (parseWord row (i + 1)))))
              else
                (case currentTopic of
                   Some t \<Rightarrow> (topics, Some (pushWord t (parseWord row (i + 1))))
                 | None \<Rightarrow>
                     (let newTopic = \<lparr> name = ''Uncategorized'', startRow = i + 1, words = [],
                                        statistics = None \<rparr>
                      in (topics, Some (pushWord newTopic (parseWord row (i + 1))))))))"

function parseLoop :: "row list \<Rightarrow> nat \<Rightarrow> topic list \<times> topic option \<Rightarrow> topic list \<times> topic option" where
  "parseLoop rows i st =
     (if i < length rows then parseLoop rows (i + 1) (parseRow (rows ! i) i st) else st)"
  by pat_completeness auto
termination
  by (relation "measure (\<lambda>(rows, i, st). length rows - i)") auto

declare parseLoop.simps [simp del]

text \<open>
  \<open>const startRow = isHeaderRow(rows[0]) ? 1 : 0\<close>. \<open>rows[0]\<close> of an empty grid is
  \<open>undefined\<close>, which \<open>isHeaderRow\<close> rejects by its \<open>!row\<close> guard.
\<close>

definition headerOffset :: "row list \<Rightarrow> nat" where
  "headerOffset rows = (if (case rows of [] \<Rightarrow> False | r # _ \<Rightarrow> isHeaderRow r) then 1 else 0)"

text \<open>After the loop: \<open>if (currentTopic) topics.push(currentTopic)\<close>.\<close>

definition pushLast :: "topic list \<times> topic option \<Rightarrow> topic list" where
  "pushLast st =
     (case st of (topics, currentTopic) \<Rightarrow>
        (case currentTopic of Some t \<Rightarrow> topics @ [t] | None \<Rightarrow> topics))"

definition parseTopics :: "row list \<Rightarrow> topic list" where
  "parseTopics rows = pushLast (parseLoop rows (headerOffset rows) ([], None))"

subsection \<open>Top-level orchestration\<close>

text \<open>
  An absent property reads as \<open>undefined\<close>, so the scalar fields hold \<open>JUndefined\<close>
  when absent; \<open>values\<close> and \<open>worksheets\<close> are \<open>None\<close> when absent or null. The
  metadata properties \<open>_cached\<close>, \<open>_cachedAt\<close> and \<open>_fetchedAt\<close> are written without
  the leading underscore, and the fields of the worksheets and of the result carry a
  prefix, since a topic has a \<open>name\<close> and \<open>statistics\<close> of its own.
\<close>

record worksheet =
  ws_name :: jsval
  ws_range :: jsval
  ws_rowCount :: jsval
  ws_columnCount :: jsval
  ws_values :: "row list option"
  ws_error :: jsval

record structuredWorksheet =
  sw_name :: jsval
  sw_range :: jsval
  sw_rowCount :: jsval
  sw_columnCount :: jsval
  sw_topics :: "topic list"
  sw_statistics :: worksheetStatistics

datatype worksheetOut = PassedThrough worksheet | Structured structuredWorksheet

record excelData =
  fileName :: jsval
  fileSize :: jsval
  worksheets :: "worksheet list option"
  cached :: jsval
  cachedAt :: jsval
  fetchedAt :: jsval

record resultData =
  res_fileName :: jsval
  res_fileSize :: jsval
  res_worksheets :: "worksheetOut list"
  res_cached :: jsval
  res_cachedAt :: jsval
  res_fetchedAt :: jsval

datatype transformed = Unchanged "excelData option" | Result resultData

text \<open>The callback of \<open>excelData.worksheets.forEach\<close>: what it pushes for one worksheet.\<close>

definition transformWorksheet :: "worksheet \<Rightarrow> worksheetOut" where
  "transformWorksheet ws =
     (if truthy (ws_error ws) then PassedThrough ws
      else
        (case ws_values ws of
           None \<Rightarrow> PassedThrough ws
         | Some values \<Rightarrow>
             if length values = 0 then PassedThrough ws
             else
               (let topics = parseTopics values;
                    stats = calculateStatistics topics;
                    topics' = map (\<lambda>t. t\<lparr>statistics := Some (calculateTopicStatistics [t])\<rparr>) topics
                in Structured \<lparr> sw_name = ws_name ws,
                                 sw_range = ws_range ws,
                                 sw_rowCount = ws_rowCount ws,
                                 sw_columnCount = ws_columnCount ws,
                                 sw_topics = topics',
                                 sw_statistics = stats \<rparr>)))"

definition transformVocabData :: "excelData option \<Rightarrow> transformed" where
  "transformVocabData excelData =
     (case excelData of
        None \<Rightarrow> Unchanged excelData
      | Some d \<Rightarrow>
          (case worksheets d of
             None \<Rightarrow> Unchanged excelData
           | Some wss \<Rightarrow>
               if length wss = 0 then Unchanged excelData
               else Result
                 \<lparr> res_fileName = fileName d,
                   res_fileSize = fileSize d,
                   res_worksheets = fold (\<lambda>ws out. out @ [transformWorksheet ws]) wss [],
                   res_cached = (if cached d \<noteq> JUndefined then cached d else JUndefined),
                   res_cachedAt = (if truthy (cachedAt d) then cachedAt d else JUndefined),
                   res_fetchedAt = (if truthy (fetchedAt d) then fetchedAt d else JUndefined) \<rparr>))"

subsection \<open>The specification's vocabulary\<close>

text \<open>
  The cell normalization rule in the words of the specification: absent or null gives the
  empty string, anything else is converted to a string and trimmed.
\<close>

definition normalizeCell :: "jsval \<Rightarrow> string" where
  "normalizeCell v = (if v = JNull \<or> v = JUndefined then '''' else trim (String_js v))"

datatype bucket = New | Known | Forgotten | Learned

text \<open>
  The flag classification table of the specification: normalize, lowercase, match exactly.
\<close>

definition flagBucket :: "jsval \<Rightarrow> bucket option" where
  "flagBucket v =
     (let f = toLowerCase (normalizeCell v)
      in if f = ''n'' then Some New
         else if f = ''y'' then Some Known
         else if f = ''?'' then Some Forgotten
         else if f = ''ok'' then Some Learned
         else None)"

definition countBucket :: "bucket \<Rightarrow> wordRecord list \<Rightarrow> nat" where
  "countBucket b ws = length (filter (\<lambda>w. flagBucket (flag w) = Some b) ws)"

definition allWords :: "topic list \<Rightarrow> wordRecord list" where
  "allWords topics = concat (map words topics)"

text \<open>The word records that a row at 1-based position \<open>n\<close> gives: one or none.\<close>

definition rowWords :: "row \<Rightarrow> nat \<Rightarrow> wordRecord list" where
  "rowWords row n = (case parseWord row n of None \<Rightarrow> [] | Some w \<Rightarrow> [w])"

text \<open>Two strings are equal up to case when their lowercase forms coincide.\<close>

definition equalsIgnoreCase :: "string \<Rightarrow> string \<Rightarrow> bool" where
  "equalsIgnoreCase s t = (toLowerCase s = toLowerCase t)"

text \<open>A cell that is null, undefined or a string of white space only.\<close>

definition blankCell :: "jsval \<Rightarrow> bool" where
  "blankCell c =
     (case c of
        JNull \<Rightarrow> True
      | JUndefined \<Rightarrow> True
      | JStr s \<Rightarrow> list_all isWhiteSpace s
      | JNum n \<Rightarrow> False
      | JBool b \<Rightarrow> False)"

subsection \<open>Example inputs\<close>

text \<open>
  A small sheet: a header, a topic row with its own word, a blank row, a word row, and a
  topic row without a word.
\<close>

definition exampleRows :: "row list" where
  "exampleRows =
     [[JStr ''Order'', JStr ''Topic'', JStr ''Flag'', JStr ''Word''],
      [JNum 1, JStr ''T1'', JStr ''N'', JStr ''apple''],
      [JStr '' '', JNull],
      [JNum 2, JStr '''', JStr ''Y'', JStr ''banana''],
      [JNum 3, JStr ''T2'', JStr ''ok'', JStr '''']]"

definition exampleWorksheet :: worksheet where
  "exampleWorksheet =
     \<lparr> ws_name = JStr ''Sheet1'', ws_range = JStr ''A1:D5'', ws_rowCount = JNum 5,
       ws_columnCount = JNum 4, ws_values = Some exampleRows, ws_error = JUndefined \<rparr>"

definition failedWorksheet :: worksheet where
  "failedWorksheet =
     \<lparr> ws_name = JStr ''X'', ws_range = JUndefined, ws_rowCount = JUndefined,
       ws_columnCount = JUndefined, ws_values = None, ws_error = JStr ''boom'' \<rparr>"

definition exampleData :: excelData where
  "exampleData =
     \<lparr> fileName = JStr ''vocab.xlsx'', fileSize = JNum 1024,
       worksheets = Some [failedWorksheet, exampleWorksheet],
       cached = JBool False, cachedAt = JUndefined, fetchedAt = JStr ''2026-02-09'' \<rparr>"

definition wordApple :: wordRecord where
  "wordApple =
     \<lparr> rowNumber = 2, order = ''1'', flag = JStr ''N'', word = ''apple'', partOfSpeech = '''',
       pronunciation = '''', meaning = '''', exampleSentence = '''', synonyms = '''',
       dayOfWeek = '''', date = '''' \<rparr>"

definition wordBanana :: wordRecord where
  "wordBanana =
     \<lparr> rowNumber = 4, order = ''2'', flag = JStr ''Y'', word = ''banana'', partOfSpeech = '''',
       pronunciation = '''', meaning = '''', exampleSentence = '''', synonyms = '''',
       dayOfWeek = '''', date = '''' \<rparr>"

definition topicT1 :: "wordRecord list \<Rightarrow> topic" where
  "topicT1 ws = \<lparr> name = ''T1'', startRow = 2, words = ws, statistics = None \<rparr>"

definition topicT2 :: topic where
  "topicT2 = \<lparr> name = ''T2'', startRow = 5, words = [], statistics = None \<rparr>"

text \<open>A sheet whose first non-blank row has neither a topic name nor a word.\<close>

definition uncategorizedRows :: "row list" where
  "uncategorizedRows =
     [[JStr '' ''],
      [JStr ''1'', JStr '''', JStr ''N'', JStr ''''],
      [JNum 2, JStr '''', JStr ''Y'', JStr ''banana'']]"

definition uncategorizedTopic :: topic where
  "uncategorizedTopic =
     \<lparr> name = ''Uncategorized'', startRow = 2,
       words = [\<lparr> rowNumber = 3, order = ''2'', flag = JStr ''Y'', word = ''banana'',
                  partOfSpeech = '''', pronunciation = '''', meaning = '''',
                  exampleSentence = '''', synonyms = '''', dayOfWeek = '''', date = '''' \<rparr>],
       statistics = None \<rparr>"

text \<open>A payload without worksheets, and one whose cache timestamp is the number zero.\<close>

definition emptyData :: excelData where
  "emptyData =
     \<lparr> fileName = JStr ''vocab.xlsx'', fileSize = JNum 0, worksheets = Some [],
       cached = JUndefined, cachedAt = JUndefined, fetchedAt = JUndefined \<rparr>"

definition staleData :: excelData where
  "staleData =
     \<lparr> fileName = JStr ''vocab.xlsx'', fileSize = JNum 1024,
       worksheets = Some [failedWorksheet],
       cached = JBool True, cachedAt = JNum 0, fetchedAt = JUndefined \<rparr>"

section \<open>Auxiliary facts\<close>

subsection \<open>Strings and cells\<close>

lemma trim_eq_Nil_iff: "trim s = [] \<longleftrightarrow> list_all isWhiteSpace s"
proof
  assume "trim s = []"
  then have a: "\<forall>c\<in>set (dropWhile isWhiteSpace s). isWhiteSpace c"
    by (simp add: trim_def)
  have "dropWhile isWhiteSpace s = []"
  proof (rule ccontr)
    assume n: "dropWhile isWhiteSpace s \<noteq> []"
    then have "\<not> isWhiteSpace (hd (dropWhile isWhiteSpace s))" by (rule hd_dropWhile)
    moreover have "hd (dropWhile isWhiteSpace s) \<in> set (dropWhile isWhiteSpace s)"
      using n by (rule hd_in_set)
    ultimately show False using a by blast
  qed
  then show "list_all isWhiteSpace s" by (simp add: list_all_iff)
next
  assume "list_all isWhiteSpace s"
  then have "dropWhile isWhiteSpace s = []" by (simp add: list_all_iff)
  then show "trim s = []" by (simp only: trim_def) simp
qed

lemma last_dropWhile: "dropWhile P xs \<noteq> [] \<Longrightarrow> last (dropWhile P xs) = last xs"
  by (induction xs) (auto split: if_splits)

lemma trim_idem: "trim (trim s) = trim s"
proof (cases "trim s = []")
  case True
  have "trim (trim s) = trim []" by (simp only: True)
  also have "\<dots> = []" by (simp add: trim_def)
  finally show ?thesis by (simp only: True)
next
  case False
  let ?u = "dropWhile isWhiteSpace s"
  let ?v = "dropWhile isWhiteSpace (rev ?u)"
  have t: "trim s = rev ?v" by (simp add: trim_def)
  from False t have v: "?v \<noteq> []" by simp
  have u: "?u \<noteq> []"
  proof
    assume e: "?u = []"
    have "?v = []" by (simp only: e rev.simps dropWhile.simps)
    with v show False by simp
  qed
  have "last ?v = last (rev ?u)" using v by (rule last_dropWhile)
  also have "\<dots> = hd ?u" using u by (simp add: last_rev)
  finally have "\<not> isWhiteSpace (last ?v)" using hd_dropWhile [OF u] by simp
  then have h: "\<not> isWhiteSpace (hd (rev ?v))" using v by (simp add: hd_rev)
  have 1: "dropWhile isWhiteSpace (rev ?v) = rev ?v"
    using h by (simp only: dropWhile_eq_self_iff) simp
  have 2: "dropWhile isWhiteSpace ?v = ?v"
    using hd_dropWhile [OF v] by (simp only: dropWhile_eq_self_iff) simp
  have "trim (trim s) = rev (dropWhile isWhiteSpace (rev (dropWhile isWhiteSpace (rev ?v))))"
    by (simp only: trim_def)
  also have "\<dots> = rev (dropWhile isWhiteSpace (rev (rev ?v)))" by (simp only: 1)
  also have "\<dots> = rev (dropWhile isWhiteSpace ?v)" by (simp only: rev_rev_ident)
  also have "\<dots> = rev ?v" by (simp only: 2)
  finally show ?thesis by (simp only: t)
qed

lemma of_char_lowerChar:
  "of_char (lowerChar c) = (let n = (of_char c :: nat)
      in if (65 \<le> n \<and> n \<le> 90) \<or> (192 \<le> n \<and> n \<le> 222 \<and> n \<noteq> 215) then n + 32 else n)"
  by (auto simp: lowerChar_def Let_def)

lemma isWhiteSpace_lowerChar: "isWhiteSpace (lowerChar c) = isWhiteSpace c"
  unfolding isWhiteSpace_def of_char_lowerChar Let_def by auto

lemma trim_toLowerCase: "trim (toLowerCase s) = toLowerCase (trim s)"
proof -
  have c: "isWhiteSpace \<circ> lowerChar = isWhiteSpace"
    by (rule ext) (simp add: isWhiteSpace_lowerChar)
  show ?thesis
    by (simp add: trim_def toLowerCase_def dropWhile_map rev_map c)
qed

lemma digitChar_not_space: "d < 10 \<Longrightarrow> \<not> isWhiteSpace (digitChar d)"
  by (auto simp: digitChar_def isWhiteSpace_def)

lemma digitsOf_has_digit: "\<exists>c\<in>set (digitsOf n). \<not> isWhiteSpace c"
proof (cases "n < 10")
  case True
  then show ?thesis by (subst digitsOf.simps) (simp add: digitChar_not_space)
next
  case False
  have "n mod 10 < 10" by simp
  then have "\<not> isWhiteSpace (digitChar (n mod 10))" by (rule digitChar_not_space)
  with False show ?thesis by (subst digitsOf.simps) simp
qed

lemma trim_numberToString: "trim (numberToString n) \<noteq> []"
proof -
  have "\<exists>c\<in>set (numberToString n). \<not> isWhiteSpace c"
    using digitsOf_has_digit by (auto simp: numberToString_def)
  then show ?thesis by (auto simp: trim_eq_Nil_iff list_all_iff)
qed

lemma trim_getCell: "trim (getCell row i) = getCell row i"
  by (simp add: getCell_def Let_def trim_idem) (simp add: trim_def)

lemma isEmptyRow_getCell: "isEmptyRow row \<Longrightarrow> getCell row i = ''''"
proof (cases "i < length row")
  case False
  then show ?thesis by (simp add: getCell_def)
next
  case True
  assume "isEmptyRow row"
  with True have "list_all (\<lambda>cell. cell = JNull \<or> cell = JUndefined \<or> trim (String_js cell) = '''') row"
    by (auto simp: isEmptyRow_def split: if_splits)
  with True have "row ! i = JNull \<or> row ! i = JUndefined \<or> trim (String_js (row ! i)) = ''''"
    by (simp add: list_all_length)
  with True show ?thesis by (auto simp: getCell_def Let_def)
qed

lemma numberToString_zero: "numberToString 0 = ''0''"
  by code_simp

lemma toLowerCase_simps [simp]:
  "toLowerCase [] = []" "toLowerCase (c # s) = lowerChar c # toLowerCase s"
  by (simp_all add: toLowerCase_def)

lemma lower_digits: "lowerChar CHR ''0'' = CHR ''0''" "lowerChar CHR ''f'' = CHR ''f''"
  by code_simp+

lemma trim_Nil [simp]: "trim [] = []"
  by (simp add: trim_def)

lemma codeFlag_spec:
  assumes "x = ''n'' \<or> x = ''y'' \<or> x = ''?'' \<or> x = ''ok''"
  shows "trim (toLowerCase (String_js (if truthy v then v else JStr ''''))) = x
         \<longleftrightarrow> toLowerCase (normalizeCell v) = x"
proof (cases "truthy v")
  case True
  then have "v \<noteq> JNull" "v \<noteq> JUndefined" by auto
  with True show ?thesis by (simp add: normalizeCell_def trim_toLowerCase)
next
  case False
  then consider "v = JStr ''''" | "v = JNum 0" | "v = JBool False" | "v = JNull" | "v = JUndefined"
    by (cases v) auto
  then show ?thesis
  proof cases
    case 2
    have "trim ''0'' = ''0''" by (simp add: trim_def isWhiteSpace_def)
    with 2 assms show ?thesis
      by (auto simp: normalizeCell_def numberToString_zero lower_digits)
  next
    case 3
    have "trim ''false'' = ''false''" by (simp add: trim_def isWhiteSpace_def)
    with 3 assms show ?thesis
      by (auto simp: normalizeCell_def lower_digits)
  qed (use assms in \<open>auto simp: normalizeCell_def\<close>)
qed

subsection \<open>The statistics folds in closed form\<close>

lemma codeFlag_bucket:
  "(trim (toLowerCase (String_js (if truthy v then v else JStr ''''))) = ''n'') = (flagBucket v = Some New)"
  "(trim (toLowerCase (String_js (if truthy v then v else JStr ''''))) = ''y'') = (flagBucket v = Some Known)"
  "(trim (toLowerCase (String_js (if truthy v then v else JStr ''''))) = ''?'') = (flagBucket v = Some Forgotten)"
  "(trim (toLowerCase (String_js (if truthy v then v else JStr ''''))) = ''ok'') = (flagBucket v = Some Learned)"
  by (simp_all add: codeFlag_spec flagBucket_def Let_def)

lemma countBucket_simps [simp]:
  "countBucket b [] = 0"
  "countBucket b (w # ws) = (if flagBucket (flag w) = Some b then 1 else 0) + countBucket b ws"
  "countBucket b (xs @ ys) = countBucket b xs + countBucket b ys"
  by (simp_all add: countBucket_def)

lemma allWords_simps [simp]:
  "allWords [] = []"
  "allWords (t # ts) = words t @ allWords ts"
  "allWords (ts @ us) = allWords ts @ allWords us"
  by (simp_all add: allWords_def)

lemma fold_words_stats:
  fixes st :: "'a topicStatistics_scheme"
  shows "fold (\<lambda>w stats.
           (let f = trim (toLowerCase (String_js (if truthy (flag w) then flag w else JStr '''')))
            in if f = ''n'' then stats\<lparr>byFlag := (byFlag stats)\<lparr>new := new (byFlag stats) + 1\<rparr>\<rparr>
               else if f = ''y'' then stats\<lparr>byFlag := (byFlag stats)\<lparr>known := known (byFlag stats) + 1\<rparr>\<rparr>
               else if f = ''?'' then stats\<lparr>byFlag := (byFlag stats)\<lparr>forgotten := forgotten (byFlag stats) + 1\<rparr>\<rparr>
               else if f = ''ok'' then stats\<lparr>byFlag := (byFlag stats)\<lparr>learned := learned (byFlag stats) + 1\<rparr>\<rparr>
               else stats)) ws st
         = st\<lparr>byFlag := \<lparr> new = new (byFlag st) + countBucket New ws,
                             known = known (byFlag st) + countBucket Known ws,
                             forgotten = forgotten (byFlag st) + countBucket Forgotten ws,
                             learned = learned (byFlag st) + countBucket Learned ws \<rparr>\<rparr>"
    (is "fold ?f ws st = _")
proof (induction ws arbitrary: st)
  case Nil
  show ?case by simp
next
  case (Cons w ws)
  have "fold ?f (w # ws) st = fold ?f ws (?f w st)" by simp
  also have "\<dots> = (?f w st)\<lparr>byFlag := \<lparr> new = new (byFlag (?f w st)) + countBucket New ws,
                             known = known (byFlag (?f w st)) + countBucket Known ws,
                             forgotten = forgotten (byFlag (?f w st)) + countBucket Forgotten ws,
                             learned = learned (byFlag (?f w st)) + countBucket Learned ws \<rparr>\<rparr>"
    by (rule Cons.IH)
  also have "\<dots> = st\<lparr>byFlag := \<lparr> new = new (byFlag st) + countBucket New (w # ws),
                             known = known (byFlag st) + countBucket Known (w # ws),
                             forgotten = forgotten (byFlag st) + countBucket Forgotten (w # ws),
                             learned = learned (byFlag st) + countBucket Learned (w # ws) \<rparr>\<rparr>"
    by (simp add: Let_def codeFlag_bucket)
  finally show ?case .
qed

lemma fold_topics_stats:
  fixes st :: "'a topicStatistics_scheme"
  shows "fold (\<lambda>t stats.
        fold (\<lambda>w stats.
           (let f = trim (toLowerCase (String_js (if truthy (flag w) then flag w else JStr '''')))
            in if f = ''n'' then stats\<lparr>byFlag := (byFlag stats)\<lparr>new := new (byFlag stats) + 1\<rparr>\<rparr>
               else if f = ''y'' then stats\<lparr>byFlag := (byFlag stats)\<lparr>known := known (byFlag stats) + 1\<rparr>\<rparr>
               else if f = ''?'' then stats\<lparr>byFlag := (byFlag stats)\<lparr>forgotten := forgotten (byFlag stats) + 1\<rparr>\<rparr>
               else if f = ''ok'' then stats\<lparr>byFlag := (byFlag stats)\<lparr>learned := learned (byFlag stats) + 1\<rparr>\<rparr>
               else stats))
          (words t) (stats\<lparr>totalWords := totalWords stats + length (words t)\<rparr>)) ts st
         = st\<lparr>totalWords := totalWords st + length (allWords ts),
               byFlag := \<lparr> new = new (byFlag st) + countBucket New (allWords ts),
                             known = known (byFlag st) + countBucket Known (allWords ts),
                             forgotten = forgotten (byFlag st) + countBucket Forgotten (allWords ts),
                             learned = learned (byFlag st) + countBucket Learned (allWords ts) \<rparr>\<rparr>"
    (is "fold ?g ts st = _")
proof (induction ts arbitrary: st)
  case Nil
  show ?case by simp
next
  case (Cons t ts)
  have "fold ?g (t # ts) st = fold ?g ts (?g t st)" by simp
  also have "\<dots> = (?g t st)\<lparr>totalWords := totalWords (?g t st) + length (allWords ts),
               byFlag := \<lparr> new = new (byFlag (?g t st)) + countBucket New (allWords ts),
                             known = known (byFlag (?g t st)) + countBucket Known (allWords ts),
                             forgotten = forgotten (byFlag (?g t st)) + countBucket Forgotten (allWords ts),
                             learned = learned (byFlag (?g t st)) + countBucket Learned (allWords ts) \<rparr>\<rparr>"
    by (rule Cons.IH)
  also have "\<dots> = st\<lparr>totalWords := totalWords st + length (allWords (t # ts)),
               byFlag := \<lparr> new = new (byFlag st) + countBucket New (allWords (t # ts)),
                             known = known (byFlag st) + countBucket Known (allWords (t # ts)),
                             forgotten = forgotten (byFlag st) + countBucket Forgotten (allWords (t # ts)),
                             learned = learned (byFlag st) + countBucket Learned (allWords (t # ts)) \<rparr>\<rparr>"
    by (simp add: fold_words_stats)
  finally show ?case .
qed

lemma calculateStatistics_closed:
  "calculateStatistics ts =
     \<lparr> totalWords = length (allWords ts),
       byFlag = \<lparr> new = countBucket New (allWords ts),
                  known = countBucket Known (allWords ts),
                  forgotten = countBucket Forgotten (allWords ts),
                  learned = countBucket Learned (allWords ts) \<rparr>,
       totalTopics = length ts \<rparr>"
  unfolding calculateStatistics_def by (simp only: fold_topics_stats) simp

lemma calculateTopicStatistics_closed:
  "calculateTopicStatistics ts =
     \<lparr> totalWords = length (allWords ts),
       byFlag = \<lparr> new = countBucket New (allWords ts),
                  known = countBucket Known (allWords ts),
                  forgotten = countBucket Forgotten (allWords ts),
                  learned = countBucket Learned (allWords ts) \<rparr> \<rparr>"
  unfolding calculateTopicStatistics_def by (simp only: fold_topics_stats) simp

subsection \<open>The parsing loop\<close>

lemma parseLoop_fold:
  "parseLoop rows i st = fold (\<lambda>j. parseRow (rows ! j) j) [i..<length rows] st"
proof (induction rows i st rule: parseLoop.induct)
  case (1 rows i st)
  show ?case
  proof (cases "i < length rows")
    case True
    then have "parseLoop rows i st = parseLoop rows (i + 1) (parseRow (rows ! i) i st)"
      by (subst parseLoop.simps) simp
    also have "\<dots> = fold (\<lambda>j. parseRow (rows ! j) j) [i + 1..<length rows] (parseRow (rows ! i) i st)"
      using True by (rule "1.IH")
    also have "\<dots> = fold (\<lambda>j. parseRow (rows ! j) j) [i..<length rows] st"
      using True by (simp add: upt_conv_Cons)
    finally show ?thesis .
  next
    case False
    then show ?thesis by (subst parseLoop.simps) simp
  qed
qed

lemma fold_upt_invariant:
  assumes "P a st" and "a \<le> b"
    and "\<And>j s. a \<le> j \<Longrightarrow> j < b \<Longrightarrow> P j s \<Longrightarrow> P (Suc j) (f j s)"
  shows "P b (fold f [a..<b] st)"
proof -
  have "c \<le> b \<Longrightarrow> a \<le> c \<Longrightarrow> P c (fold f [a..<c] st)" for c
  proof (induction c)
    case 0
    with assms(1) show ?case by simp
  next
    case (Suc c)
    show ?case
    proof (cases "a = Suc c")
      case True
      with assms(1) show ?thesis by simp
    next
      case False
      with Suc.prems have ac: "a \<le> c" and cb: "c < b" by simp_all
      then have "P c (fold f [a..<c] st)" using Suc.IH by simp
      then have "P (Suc c) (f c (fold f [a..<c] st))" using ac cb by (intro assms(3))
      with ac show ?thesis by simp
    qed
  qed
  from this [of b] assms(2) show ?thesis by simp
qed

lemma parseWord_Some_iff:
  "parseWord row n = Some w \<longleftrightarrow>
     getCell row 3 \<noteq> '''' \<and>
     w = \<lparr> rowNumber = n, order = getCell row 0, flag = JStr (getCell row 2),
           word = getCell row 3, partOfSpeech = getCell row 4, pronunciation = getCell row 5,
           meaning = getCell row 6, exampleSentence = getCell row 7, synonyms = getCell row 8,
           dayOfWeek = getCell row 9, date = getCell row 10 \<rparr>"
  by (auto simp: parseWord_def Let_def trim_getCell)

lemma parseWord_None_iff: "parseWord row n = None \<longleftrightarrow> getCell row 3 = ''''"
  by (simp add: parseWord_def Let_def trim_getCell)

lemma pushWord_rowWords:
  "pushWord t (parseWord row n) = t\<lparr>words := words t @ rowWords row n\<rparr>"
proof (cases "parseWord row n")
  case None
  then show ?thesis by (simp add: pushWord_def rowWords_def)
next
  case (Some w)
  then have "word w \<noteq> ''''" by (auto simp: parseWord_Some_iff)
  with Some show ?thesis by (simp add: pushWord_def rowWords_def)
qed

lemma rowWords_empty: "isEmptyRow row \<Longrightarrow> rowWords row n = []"
  by (simp add: rowWords_def parseWord_def Let_def isEmptyRow_getCell)

lemma parseRow_empty: "isEmptyRow row \<Longrightarrow> parseRow row i st = st"
  by (simp add: parseRow_def split: prod.splits)

lemma parseRow_topic:
  assumes "\<not> isEmptyRow row" "getCell row 1 \<noteq> ''''"
  shows "parseRow row i (topics, cur) =
           ((case cur of Some t \<Rightarrow> topics @ [t] | None \<Rightarrow> topics),
            Some \<lparr> name = getCell row 1, startRow = i + 1, words = rowWords row (i + 1),
                   statistics = None \<rparr>)"
  using assms by (simp add: parseRow_def Let_def trim_getCell pushWord_rowWords)

lemma parseRow_word:
  assumes "\<not> isEmptyRow row" "getCell row 1 = ''''"
  shows "parseRow row i (topics, Some t) =
           (topics, Some (t\<lparr>words := words t @ rowWords row (i + 1)\<rparr>))"
  using assms by (simp add: parseRow_def Let_def pushWord_rowWords)

lemma parseRow_uncategorized:
  assumes "\<not> isEmptyRow row" "getCell row 1 = ''''"
  shows "parseRow row i (topics, None) =
           (topics, Some \<lparr> name = ''Uncategorized'', startRow = i + 1,
                            words = rowWords row (i + 1), statistics = None \<rparr>)"
  using assms by (simp add: parseRow_def Let_def pushWord_rowWords)

lemma pushLast_simps [simp]:
  "pushLast (topics, None) = topics"
  "pushLast (topics, Some t) = topics @ [t]"
  by (simp_all add: pushLast_def)

lemma allWords_parseRow:
  "allWords (pushLast (parseRow row i st)) = allWords (pushLast st) @ rowWords row (i + 1)"
proof (cases st)
  case (Pair topics cur)
  show ?thesis
  proof (cases "isEmptyRow row")
    case True
    then show ?thesis by (simp add: parseRow_empty rowWords_empty)
  next
    case False
    show ?thesis
    proof (cases "getCell row 1 = ''''")
      case True
      with False Pair show ?thesis
        by (cases cur) (simp_all add: parseRow_word parseRow_uncategorized)
    next
      case n: False
      with False Pair show ?thesis
        by (cases cur) (simp_all add: parseRow_topic)
    qed
  qed
qed

lemma allWords_fold:
  "allWords (pushLast (fold (\<lambda>j. parseRow (rows ! j) j) js st)) =
     allWords (pushLast st) @ concat (map (\<lambda>j. rowWords (rows ! j) (j + 1)) js)"
  by (induction js arbitrary: st) (simp_all add: allWords_parseRow)

lemma allWords_parseTopics:
  "allWords (parseTopics rows) =
     concat (map (\<lambda>j. rowWords (rows ! j) (j + 1)) [headerOffset rows..<length rows])"
  by (simp add: parseTopics_def parseLoop_fold allWords_fold)

subsection \<open>The orchestration, unfolded\<close>

lemma fold_push_map: "fold (\<lambda>x out. out @ [f x]) xs acc = acc @ map f xs"
  by (induction xs arbitrary: acc) simp_all

lemma transformVocabData_Result:
  assumes "worksheets d = Some wss" "wss \<noteq> []"
  shows "transformVocabData (Some d) =
     Result \<lparr> res_fileName = fileName d, res_fileSize = fileSize d,
              res_worksheets = map transformWorksheet wss,
              res_cached = cached d,
              res_cachedAt = (if truthy (cachedAt d) then cachedAt d else JUndefined),
              res_fetchedAt = (if truthy (fetchedAt d) then fetchedAt d else JUndefined) \<rparr>"
  using assms by (simp add: transformVocabData_def fold_push_map)

lemma transformWorksheet_Structured:
  assumes "\<not> truthy (ws_error ws)" "ws_values ws = Some rows" "rows \<noteq> []"
  shows "transformWorksheet ws =
     Structured \<lparr> sw_name = ws_name ws, sw_range = ws_range ws, sw_rowCount = ws_rowCount ws,
                  sw_columnCount = ws_columnCount ws,
                  sw_topics = map (\<lambda>t. t\<lparr>statistics := Some (calculateTopicStatistics [t])\<rparr>) (parseTopics rows),
                  sw_statistics = calculateStatistics (parseTopics rows) \<rparr>"
  using assms by (simp add: transformWorksheet_def Let_def)

lemma allWords_set_statistics: "allWords (map (\<lambda>t. t\<lparr>statistics := f t\<rparr>) ts) = allWords ts"
  by (induction ts) simp_all

lemma length_allWords: "length (allWords ts) = sum_list (map (\<lambda>t. length (words t)) ts)"
  by (induction ts) simp_all

subsection \<open>Counting is a matter of the multiset of words\<close>

lemma mset_allWords: "mset (allWords ts) = sum_mset (image_mset (\<lambda>t. mset (words t)) (mset ts))"
  by (induction ts) simp_all

lemma mset_allWords_perm: "mset vs = mset us \<Longrightarrow> mset (allWords vs) = mset (allWords us)"
  by (simp add: mset_allWords)

lemma mset_allWords_within:
  "list_all2 (\<lambda>a b. mset (words a) = mset (words b)) ts us \<Longrightarrow> mset (allWords ts) = mset (allWords us)"
  by (induction ts us rule: list_all2_induct) simp_all

lemma countBucket_mset: "countBucket b ws = size (filter_mset (\<lambda>w. flagBucket (flag w) = Some b) (mset ws))"
  by (simp add: countBucket_def flip: mset_filter)

lemma stats_mset_cong:
  assumes "mset (allWords vs) = mset (allWords ts)" "length vs = length ts"
  shows "calculateStatistics vs = calculateStatistics ts"
    and "calculateTopicStatistics vs = calculateTopicStatistics ts"
proof -
  have l: "length (allWords vs) = length (allWords ts)"
    using assms(1) by (rule mset_eq_length)
  have c: "countBucket b (allWords vs) = countBucket b (allWords ts)" for b
    by (simp add: countBucket_mset assms(1))
  show "calculateStatistics vs = calculateStatistics ts"
    by (simp add: calculateStatistics_closed l c assms(2))
  show "calculateTopicStatistics vs = calculateTopicStatistics ts"
    by (simp add: calculateTopicStatistics_closed l c)
qed

section \<open>The claims about the statistics aggregator\<close>

text \<open>
  Claim C10. On every topic list \<open>calculateTopicStatistics\<close> computes the same
  \<open>totalWords\<close> and the same \<open>byFlag\<close> counts as \<open>calculateStatistics\<close>; the result is
  that of \<open>calculateStatistics\<close> with the \<open>totalTopics\<close> field dropped. In particular
  this holds on the one-element list of a single topic, which is how the per-topic
  statistics are computed.
\<close>

theorem topic_statistics_agree:
  "calculateTopicStatistics topics = topicStatistics.truncate (calculateStatistics topics)
   \<and> totalWords (calculateTopicStatistics topics) = totalWords (calculateStatistics topics)
   \<and> byFlag (calculateTopicStatistics topics) = byFlag (calculateStatistics topics)
   \<and> calculateTopicStatistics [t] = topicStatistics.truncate (calculateStatistics [t])"
  by (simp add: calculateStatistics_closed calculateTopicStatistics_closed
      topicStatistics.truncate_def)

theorem topic_statistics_agree_witness:
  "calculateTopicStatistics [topicT1 [wordApple, wordBanana], topicT2]
     = topicStatistics.truncate (calculateStatistics [topicT1 [wordApple, wordBanana], topicT2])
   \<and> calculateTopicStatistics [topicT2] = topicStatistics.truncate (calculateStatistics [topicT2])"
  using topic_statistics_agree [of "[topicT1 [wordApple, wordBanana], topicT2]" topicT2]
  by simp

text \<open>
  Claim C2. For a worksheet with no error marker and non-empty \<open>values\<close>, the
  worksheet-level statistics in the output of \<open>transformVocabData\<close> have \<open>totalWords\<close>
  equal to the sum of the lengths of the word lists of the worksheet's topics, and
  \<open>totalTopics\<close> equal to the number of its topics.
\<close>

theorem worksheet_statistics_complete:
  assumes "worksheets d = Some wss" "i < length wss"
    and "\<not> truthy (ws_error (wss ! i))" "ws_values (wss ! i) = Some rows" "rows \<noteq> []"
  shows "\<exists>r sw. transformVocabData (Some d) = Result r
           \<and> res_worksheets r ! i = Structured sw
           \<and> totalWords (sw_statistics sw) = sum_list (map (\<lambda>t. length (words t)) (sw_topics sw))
           \<and> totalTopics (sw_statistics sw) = length (sw_topics sw)"
proof -
  from assms(2) have ne: "wss \<noteq> []" by auto
  have "length (allWords (parseTopics rows)) =
        sum_list (map (\<lambda>t. length (words t))
          (map (\<lambda>t. t\<lparr>statistics := Some (calculateTopicStatistics [t])\<rparr>) (parseTopics rows)))"
    by (simp add: length_allWords o_def)
  then show ?thesis
    using assms(2)
    by (simp add: transformVocabData_Result [OF assms(1) ne]
        transformWorksheet_Structured [OF assms(3,4,5)] calculateStatistics_closed)
qed

theorem worksheet_statistics_complete_witness:
  "\<exists>r sw. transformVocabData (Some exampleData) = Result r
           \<and> res_worksheets r ! 1 = Structured sw
           \<and> totalWords (sw_statistics sw) = sum_list (map (\<lambda>t. length (words t)) (sw_topics sw))
           \<and> totalTopics (sw_statistics sw) = length (sw_topics sw)"
proof -
  have 1: "worksheets exampleData = Some [failedWorksheet, exampleWorksheet]"
    by (simp add: exampleData_def)
  have 2: "1 < length [failedWorksheet, exampleWorksheet]" by simp
  have 3: "\<not> truthy (ws_error ([failedWorksheet, exampleWorksheet] ! 1))"
    by (simp add: exampleWorksheet_def)
  have 4: "ws_values ([failedWorksheet, exampleWorksheet] ! 1) = Some exampleRows"
    by (simp add: exampleWorksheet_def)
  have 5: "exampleRows \<noteq> []" by (simp add: exampleRows_def)
  show ?thesis by (rule worksheet_statistics_complete [OF 1 2 3 4 5])
qed

text \<open>
  Claim C4. Both aggregators classify the flag of every word record as the
  specification's table does (\<open>flagBucket\<close>: normalize, lowercase, match exactly): the
  \<open>new\<close>, \<open>known\<close>, \<open>forgotten\<close> and \<open>learned\<close> counts are the numbers of words whose
  flag falls in that bucket, and \<open>totalWords\<close> counts every word, whatever its flag. The
  flags \<open>N\<close>, \<open>n\<close> and \<open> N \<close> are new; \<open>maybe\<close>, the empty string, null and undefined
  fall in no bucket.
\<close>

theorem flag_classification:
  "totalWords (calculateStatistics ts) = length (allWords ts)
   \<and> new (byFlag (calculateStatistics ts)) = countBucket New (allWords ts)
   \<and> known (byFlag (calculateStatistics ts)) = countBucket Known (allWords ts)
   \<and> forgotten (byFlag (calculateStatistics ts)) = countBucket Forgotten (allWords ts)
   \<and> learned (byFlag (calculateStatistics ts)) = countBucket Learned (allWords ts)
   \<and> totalWords (calculateTopicStatistics ts) = length (allWords ts)
   \<and> new (byFlag (calculateTopicStatistics ts)) = countBucket New (allWords ts)
   \<and> known (byFlag (calculateTopicStatistics ts)) = countBucket Known (allWords ts)
   \<and> forgotten (byFlag (calculateTopicStatistics ts)) = countBucket Forgotten (allWords ts)
   \<and> learned (byFlag (calculateTopicStatistics ts)) = countBucket Learned (allWords ts)
   \<and> flagBucket (JStr ''N'') = Some New \<and> flagBucket (JStr ''n'') = Some New
   \<and> flagBucket (JStr '' N '') = Some New
   \<and> flagBucket (JStr ''maybe'') = None \<and> flagBucket (JStr '''') = None
   \<and> flagBucket JNull = None \<and> flagBucket JUndefined = None"
proof -
  have e: "flagBucket (JStr ''N'') = Some New" "flagBucket (JStr ''n'') = Some New"
    "flagBucket (JStr '' N '') = Some New"
    "flagBucket (JStr ''maybe'') = None" "flagBucket (JStr '''') = None"
    "flagBucket JNull = None" "flagBucket JUndefined = None"
    by code_simp+
  show ?thesis
    by (simp add: calculateStatistics_closed calculateTopicStatistics_closed e)
qed

theorem flag_classification_witness:
  "totalWords (calculateStatistics [topicT1 [wordApple, wordBanana], topicT2]) = 2
   \<and> new (byFlag (calculateStatistics [topicT1 [wordApple, wordBanana], topicT2])) = 1
   \<and> known (byFlag (calculateStatistics [topicT1 [wordApple, wordBanana], topicT2])) = 1
   \<and> forgotten (byFlag (calculateStatistics [topicT1 [wordApple, wordBanana], topicT2])) = 0
   \<and> learned (byFlag (calculateStatistics [topicT1 [wordApple, wordBanana], topicT2])) = 0"
proof -
  have b: "flagBucket (flag wordApple) = Some New" "flagBucket (flag wordBanana) = Some Known"
    by code_simp+
  show ?thesis
    using flag_classification [of "[topicT1 [wordApple, wordBanana], topicT2]"]
    by (simp add: topicT1_def topicT2_def b)
qed

text \<open>
  Claim C9. \<open>calculateStatistics\<close> is a function of its argument alone, and what it
  returns does not depend on order: permuting the words within the topics (\<open>ts\<close> to
  \<open>us\<close>) and then the topics themselves (\<open>us\<close> to \<open>vs\<close>) leaves the statistics
  unchanged, for both aggregators. Running it again on topics whose \<open>statistics\<close> field
  has been filled in the meantime gives the same statistics.
\<close>

theorem statistics_order_independent:
  assumes "list_all2 (\<lambda>a b. mset (words a) = mset (words b)) ts us" and "mset vs = mset us"
  shows "calculateStatistics vs = calculateStatistics ts
       \<and> calculateTopicStatistics vs = calculateTopicStatistics ts
       \<and> calculateStatistics (map (\<lambda>t. t\<lparr>statistics := f t\<rparr>) ts) = calculateStatistics ts"
proof -
  have "mset (allWords vs) = mset (allWords us)"
    using assms(2) by (rule mset_allWords_perm)
  also have "\<dots> = mset (allWords ts)"
    using assms(1) by (rule mset_allWords_within [symmetric])
  finally have m: "mset (allWords vs) = mset (allWords ts)" .
  have "length vs = length us" using assms(2) by (rule mset_eq_length)
  moreover have "length ts = length us" using assms(1) by (rule list_all2_lengthD)
  ultimately have l: "length vs = length ts" by simp
  show ?thesis
    by (simp add: stats_mset_cong [OF m l])
       (simp add: calculateStatistics_closed allWords_set_statistics)
qed

theorem statistics_order_independent_witness:
  "calculateStatistics [topicT2, topicT1 [wordBanana, wordApple]]
     = calculateStatistics [topicT1 [wordApple, wordBanana], topicT2]
   \<and> calculateTopicStatistics [topicT2, topicT1 [wordBanana, wordApple]]
     = calculateTopicStatistics [topicT1 [wordApple, wordBanana], topicT2]"
proof -
  have 1: "list_all2 (\<lambda>a b. mset (words a) = mset (words b))
             [topicT1 [wordApple, wordBanana], topicT2] [topicT1 [wordBanana, wordApple], topicT2]"
    by (simp add: topicT1_def topicT2_def add_mset_commute)
  have 2: "mset [topicT2, topicT1 [wordBanana, wordApple]]
             = mset [topicT1 [wordBanana, wordApple], topicT2]"
    by (simp add: add_mset_commute)
  show ?thesis
    using statistics_order_independent [OF 1 2] by simp
qed

section \<open>Facts about the parsing pass\<close>

lemma headerOffset_le: "headerOffset rows \<le> length rows"
  by (cases rows) (simp_all add: headerOffset_def)

lemma headerOffset_cases:
  "headerOffset rows = (if rows \<noteq> [] \<and> isHeaderRow (rows ! 0) then 1 else 0)"
  by (cases rows) (simp_all add: headerOffset_def)

lemma fold_empty_rows:
  "(\<And>j. j \<in> set js \<Longrightarrow> isEmptyRow (rows ! j)) \<Longrightarrow> fold (\<lambda>j. parseRow (rows ! j) j) js st = st"
  by (induction js arbitrary: st) (simp_all add: parseRow_empty)

lemma parseRow_current:
  "(\<exists>ws. parseRow row i (topics, Some t) = (topics, Some (t\<lparr>words := words t @ ws\<rparr>)))
   \<or> (\<exists>t'. parseRow row i (topics, Some t) = (topics @ [t], Some t'))"
proof (cases "isEmptyRow row")
  case True
  have "t = t\<lparr>words := words t @ []\<rparr>" by simp
  then have "parseRow row i (topics, Some t) = (topics, Some (t\<lparr>words := words t @ []\<rparr>))"
    using True by (simp only: parseRow_empty)
  then show ?thesis by blast
next
  case False
  show ?thesis
  proof (cases "getCell row 1 = ''''")
    case True
    from parseRow_word [OF False True, of i topics t] show ?thesis by blast
  next
    case n: False
    from parseRow_topic [OF False n, of i topics "Some t"] show ?thesis by simp
  qed
qed

lemma fold_parse_current:
  "\<exists>ws post. pushLast (fold (\<lambda>j. parseRow (rows ! j) j) js (topics, Some t))
                = topics @ t\<lparr>words := words t @ ws\<rparr> # post"
proof (induction js arbitrary: topics t)
  case Nil
  have "pushLast (topics, Some t) = topics @ t\<lparr>words := words t @ []\<rparr> # []" by simp
  then show ?case by (simp only: fold_simps id_apply) blast
next
  case (Cons j js)
  let ?f = "\<lambda>j. parseRow (rows ! j) j"
  have u: "fold ?f (j # js) (topics, Some t) = fold ?f js (parseRow (rows ! j) j (topics, Some t))"
    by simp
  from parseRow_current [of "rows ! j" j topics t] show ?case
  proof (elim disjE exE)
    fix ws
    assume s: "parseRow (rows ! j) j (topics, Some t) = (topics, Some (t\<lparr>words := words t @ ws\<rparr>))"
    from Cons.IH [of topics "t\<lparr>words := words t @ ws\<rparr>"] obtain ws1 post where
      "pushLast (fold ?f js (topics, Some (t\<lparr>words := words t @ ws\<rparr>)))
         = topics @ (t\<lparr>words := words t @ ws\<rparr>)\<lparr>words := words (t\<lparr>words := words t @ ws\<rparr>) @ ws1\<rparr> # post"
      by blast
    then have "pushLast (fold ?f (j # js) (topics, Some t))
         = topics @ t\<lparr>words := words t @ (ws @ ws1)\<rparr> # post"
      by (simp only: u s) simp
    then show ?thesis by blast
  next
    fix t'
    assume s: "parseRow (rows ! j) j (topics, Some t) = (topics @ [t], Some t')"
    from Cons.IH [of "topics @ [t]" t'] obtain ws1 post where
      "pushLast (fold ?f js (topics @ [t], Some t'))
         = (topics @ [t]) @ t'\<lparr>words := words t' @ ws1\<rparr> # post"
      by blast
    then have "pushLast (fold ?f (j # js) (topics, Some t))
         = topics @ t\<lparr>words := words t @ []\<rparr> # (t'\<lparr>words := words t' @ ws1\<rparr> # post)"
      by (simp only: u s) simp
    then show ?thesis by blast
  qed
qed

lemma upt_split: "a \<le> i \<Longrightarrow> i < n \<Longrightarrow> [a..<n] = [a..<i] @ i # [Suc i..<n]"
proof -
  assume a: "a \<le> i" and b: "i < n"
  have "[a..<i + (n - i)] = [a..<i] @ [i..<i + (n - i)]" using a by (rule upt_add_eq_append)
  moreover have "i + (n - i) = n" using b by simp
  ultimately have "[a..<n] = [a..<i] @ [i..<n]" by simp
  then show ?thesis using b by (simp add: upt_conv_Cons)
qed

lemma parseTopics_split:
  assumes "headerOffset rows \<le> i" "i < length rows"
  shows "parseTopics rows =
     pushLast (fold (\<lambda>j. parseRow (rows ! j) j) [Suc i..<length rows]
       (parseRow (rows ! i) i (fold (\<lambda>j. parseRow (rows ! j) j) [headerOffset rows..<i] ([], None))))"
proof -
  have "[headerOffset rows..<length rows] = [headerOffset rows..<i] @ i # [Suc i..<length rows]"
    using assms by (rule upt_split)
  then show ?thesis by (simp add: parseTopics_def parseLoop_fold)
qed

lemma rowWords_rowNumber: "w \<in> set (rowWords row n) \<Longrightarrow> rowNumber w = n"
  by (cases "parseWord row n") (auto simp: rowWords_def parseWord_Some_iff)

lemma prefix_words_bound:
  assumes "w \<in> set (allWords (pushLast (fold (\<lambda>j. parseRow (rows ! j) j) [a..<i] ([], None))))"
  shows "rowNumber w \<le> i"
proof -
  from assms obtain j where "j \<in> set [a..<i]" "w \<in> set (rowWords (rows ! j) (j + 1))"
    by (auto simp: allWords_fold)
  then show ?thesis by (auto dest: rowWords_rowNumber)
qed

lemma mem_allWords: "t \<in> set ts \<Longrightarrow> w \<in> set (words t) \<Longrightarrow> w \<in> set (allWords ts)"
  by (auto simp: allWords_def)

lemma topic_origin:
  assumes "t \<in> set (parseTopics rows)"
  shows "\<exists>j. headerOffset rows \<le> j \<and> j < length rows \<and> startRow t = j + 1
            \<and> \<not> isEmptyRow (rows ! j)
            \<and> (getCell (rows ! j) 1 \<noteq> '''' \<and> name t = getCell (rows ! j) 1
               \<or> getCell (rows ! j) 1 = '''' \<and> name t = ''Uncategorized''
                  \<and> (\<forall>k. headerOffset rows \<le> k \<and> k < j \<longrightarrow> isEmptyRow (rows ! k)))"
proof -
  let ?off = "headerOffset rows"
  let ?E = "\<lambda>j. \<forall>k. ?off \<le> k \<and> k < j \<longrightarrow> isEmptyRow (rows ! k)"
  let ?O = "\<lambda>j' n s. ?off \<le> j' \<and> s = j' + 1 \<and> \<not> isEmptyRow (rows ! j')
              \<and> (getCell (rows ! j') 1 \<noteq> '''' \<and> n = getCell (rows ! j') 1
                 \<or> getCell (rows ! j') 1 = '''' \<and> n = ''Uncategorized'' \<and> ?E j')"
  let ?Q = "\<lambda>j t. \<exists>j'<j. ?O j' (name t) (startRow t)"
  let ?P = "\<lambda>j st. (\<forall>t\<in>set (pushLast st). ?Q j t) \<and> (snd st = None \<longrightarrow> ?E j)"
  let ?f = "\<lambda>j. parseRow (rows ! j) j"
  have mono: "?Q j t \<Longrightarrow> ?Q (Suc j) t" for j t
    using less_Suc_eq by blast
  have step: "?P (Suc j) (?f j s)" if "?off \<le> j" "j < length rows" "?P j s" for j s
  proof (cases s)
    case (Pair tp cur)
    from that(3) Pair have q: "\<And>t. t \<in> set (pushLast (tp, cur)) \<Longrightarrow> ?Q (Suc j) t"
      and e: "cur = None \<Longrightarrow> ?E j"
      using mono by auto
    show ?thesis
    proof (cases "isEmptyRow (rows ! j)")
      case True
      have "?E (Suc j)" if "cur = None"
        using e [OF that] True less_Suc_eq by auto
      with q True Pair show ?thesis by (simp add: parseRow_empty)
    next
      case ne: False
      show ?thesis
      proof (cases "getCell (rows ! j) 1 = ''''")
        case n: False
        have new: "?O j (getCell (rows ! j) 1) (j + 1)" using that(1) ne n by simp
        have "parseRow (rows ! j) j (tp, cur) =
                (pushLast (tp, cur), Some \<lparr> name = getCell (rows ! j) 1, startRow = j + 1,
                   words = rowWords (rows ! j) (j + 1), statistics = None \<rparr>)"
          using parseRow_topic [OF ne n, of j tp cur] by (cases cur) simp_all
        with q new Pair show ?thesis by auto
      next
        case True
        show ?thesis
        proof (cases cur)
          case None
          have new: "?O j ''Uncategorized'' (j + 1)" using that(1) ne True e [OF None] by simp
          with q Pair None show ?thesis
            by (auto simp: parseRow_uncategorized [OF ne True])
        next
          case (Some t0)
          with q Pair show ?thesis
            by (auto simp: parseRow_word [OF ne True])
        qed
      qed
    qed
  qed
  have "?P (length rows) (fold ?f [?off..<length rows] ([], None))"
  proof (rule fold_upt_invariant [where P = ?P])
    show "?P ?off ([], None)" by auto
    show "?off \<le> length rows" by (rule headerOffset_le)
    show "?P (Suc j) (?f j s)" if "?off \<le> j" "j < length rows" "?P j s" for j s
      using that by (rule step)
  qed
  with assms have "?Q (length rows) t"
    by (simp add: parseTopics_def parseLoop_fold)
  then show ?thesis by auto
qed

lemma getCell_Nil [simp]: "getCell [] i = ''''"
  by (simp add: getCell_def)

lemma isEmptyRow_Nil [simp]: "isEmptyRow []"
  by (simp add: isEmptyRow_def)

lemma lower_keywords:
  "toLowerCase ''order'' = ''order''" "toLowerCase ''topic'' = ''topic''"
  "toLowerCase ''session'' = ''session''"
  by code_simp+

lemma isHeaderRow_iff:
  "isHeaderRow row \<longleftrightarrow>
     equalsIgnoreCase (getCell row 0) ''order'' \<or> equalsIgnoreCase (getCell row 1) ''topic''
     \<or> equalsIgnoreCase (getCell row 1) ''session''"
proof (cases "length row = 0")
  case True
  then show ?thesis
    by (simp add: isHeaderRow_def equalsIgnoreCase_def)
next
  case False
  then show ?thesis
    by (simp add: isHeaderRow_def equalsIgnoreCase_def lower_keywords Let_def del: toLowerCase_simps)
qed

lemma header_not_empty: "isHeaderRow row \<Longrightarrow> \<not> isEmptyRow row"
  by (auto simp: isHeaderRow_def Let_def isEmptyRow_getCell split: if_splits)

lemma blankCell_iff:
  "blankCell c \<longleftrightarrow> c = JNull \<or> c = JUndefined \<or> trim (String_js c) = ''''"
proof (cases c)
  case (JStr s)
  then show ?thesis by (simp add: blankCell_def trim_eq_Nil_iff)
next
  case (JNum n)
  then show ?thesis by (simp add: blankCell_def trim_numberToString)
next
  case (JBool b)
  have "trim ''true'' \<noteq> ''''" "trim ''false'' \<noteq> ''''" by code_simp+
  with JBool show ?thesis by (simp add: blankCell_def)
qed (simp_all add: blankCell_def)

lemma isEmptyRow_iff: "isEmptyRow row \<longleftrightarrow> list_all blankCell row"
  by (simp add: isEmptyRow_def list_all_iff blankCell_iff)

lemma parseTopics_header_skip:
  assumes "isHeaderRow h"
  shows "parseTopics (h # rest) = parseTopics ([] # rest)"
proof -
  have "\<not> isHeaderRow []" by (simp add: isHeaderRow_def)
  then have o: "headerOffset ([] # rest) = 0" by (simp add: headerOffset_def)
  from assms have h: "headerOffset (h # rest) = 1" by (simp add: headerOffset_def)
  have c: "fold (\<lambda>j. parseRow ((h # rest) ! j) j) [1..<Suc (length rest)] ([], None)
         = fold (\<lambda>j. parseRow (([] # rest) ! j) j) [1..<Suc (length rest)] ([], None)"
    by (rule fold_cong) (auto simp: nth_Cons')
  have "[0..<Suc (length rest)] = 0 # [1..<Suc (length rest)]"
    by (subst upt_rec) simp
  then have "parseTopics ([] # rest)
         = pushLast (fold (\<lambda>j. parseRow (([] # rest) ! j) j) [1..<Suc (length rest)] ([], None))"
    by (simp add: parseTopics_def parseLoop_fold o parseRow_empty)
  moreover have "parseTopics (h # rest)
         = pushLast (fold (\<lambda>j. parseRow ((h # rest) ! j) j) [1..<Suc (length rest)] ([], None))"
    by (simp add: parseTopics_def parseLoop_fold h)
  ultimately show ?thesis by (simp only: c)
qed

lemma parseTopics_row0_processed:
  assumes "rows \<noteq> []" "\<not> isHeaderRow (rows ! 0)" "\<not> isEmptyRow (rows ! 0)"
  shows "\<exists>t post. parseTopics rows = t # post \<and> startRow t = 1"
proof -
  let ?f = "\<lambda>j. parseRow (rows ! j) j"
  from assms have o: "headerOffset rows = 0" by (simp add: headerOffset_cases)
  from assms(1) have l: "0 < length rows" by simp
  obtain t0 where s: "parseRow (rows ! 0) 0 ([], None) = ([], Some t0)" and r: "startRow t0 = 1"
  proof (cases "getCell (rows ! 0) 1 = ''''")
    case True
    from parseRow_uncategorized [OF assms(3) True, of 0 "[]"] that show ?thesis by simp
  next
    case False
    from parseRow_topic [OF assms(3) False, of 0 "[]" None] that show ?thesis by simp
  qed
  have "parseTopics rows = pushLast (fold ?f [Suc 0..<length rows] ([], Some t0))"
    using parseTopics_split [of rows 0] l by (simp add: o s)
  moreover obtain ws post where
    "pushLast (fold ?f [Suc 0..<length rows] ([], Some t0)) = [] @ t0\<lparr>words := words t0 @ ws\<rparr> # post"
    using fold_parse_current [of rows "[Suc 0..<length rows]" "[]" t0] by blast
  ultimately have "parseTopics rows = t0\<lparr>words := words t0 @ ws\<rparr> # post" by simp
  with r show ?thesis by auto
qed

lemma parseTopics_blank_update:
  assumes "i < length rows" "isEmptyRow (rows ! i)" "isEmptyRow r"
  shows "parseTopics (rows[i := r]) = parseTopics rows"
proof -
  have nh: "\<not> isHeaderRow r" "\<not> isHeaderRow (rows ! i)"
    using assms(2,3) header_not_empty by blast+
  have o: "headerOffset (rows[i := r]) = headerOffset rows"
  proof (cases i)
    case 0
    with assms(1) nh show ?thesis by (simp add: headerOffset_cases)
  next
    case (Suc k)
    with assms(1) show ?thesis by (simp add: headerOffset_cases)
  qed
  have "parseRow (rows[i := r] ! j) j = parseRow (rows ! j) j" for j
  proof (cases "j = i")
    case True
    with assms show ?thesis by (auto simp: parseRow_empty)
  next
    case False
    then show ?thesis by simp
  qed
  then show ?thesis by (simp add: parseTopics_def parseLoop_fold o)
qed

section \<open>The claims about the row grouping parser\<close>

text \<open>
  Claim C1. When the loop of \<open>parseTopics\<close> reaches a non-empty row whose column-B
  cell is non-empty after trimming, it starts a new topic named by the trimmed cell, with
  \<open>startRow\<close> the row's 1-based index; a current topic, if there is one, is pushed to
  the output first, whatever its words; and the word record of that row, if its word
  cell is non-empty, goes to the new topic. The first conjunct is the step of the loop
  on any state; the second says that \<open>rowWords\<close> holds the row's word record when
  the word cell is non-empty. The third is what this means for the result: for a row
  \<open>i\<close> of the pass the output holds the new topic, its words beginning with the row's
  own word, and the topics pushed before it hold only words of earlier rows.
\<close>

theorem topic_start_row:
  assumes "\<not> isEmptyRow row" and "trim (getCell row 1) \<noteq> ''''"
  shows "parseRow row i (topics, currentTopic) =
           ((case currentTopic of Some t \<Rightarrow> topics @ [t] | None \<Rightarrow> topics),
            Some \<lparr> name = trim (getCell row 1), startRow = i + 1,
                   words = rowWords row (i + 1), statistics = None \<rparr>)
       \<and> (trim (getCell row 3) \<noteq> '''' \<longrightarrow>
            (\<exists>w. parseWord row (i + 1) = Some w \<and> rowWords row (i + 1) = [w]))
       \<and> (headerOffset rows \<le> i \<and> i < length rows \<and> rows ! i = row \<longrightarrow>
            (\<exists>pre ws post.
               parseTopics rows =
                 pre @ \<lparr> name = trim (getCell row 1), startRow = i + 1,
                         words = rowWords row (i + 1) @ ws, statistics = None \<rparr> # post
               \<and> (\<forall>t\<in>set pre. \<forall>w\<in>set (words t). rowNumber w \<le> i)))"
proof -
  from assms(2) have b: "getCell row 1 \<noteq> ''''" by (simp add: trim_getCell)
  let ?new = "\<lparr> name = trim (getCell row 1), startRow = i + 1,
                 words = rowWords row (i + 1), statistics = None \<rparr>"
  have step: "parseRow row i (tp, cur) =
                ((case cur of Some t \<Rightarrow> tp @ [t] | None \<Rightarrow> tp), Some ?new)" for tp cur
    using parseRow_topic [OF assms(1) b] by (simp add: trim_getCell)
  have glob: "\<exists>pre ws post.
               parseTopics rows = pre @ ?new\<lparr>words := rowWords row (i + 1) @ ws\<rparr> # post
               \<and> (\<forall>t\<in>set pre. \<forall>w\<in>set (words t). rowNumber w \<le> i)"
    if h: "headerOffset rows \<le> i" "i < length rows" "rows ! i = row"
  proof -
    let ?f = "\<lambda>j. parseRow (rows ! j) j"
    obtain tp cur where st: "fold ?f [headerOffset rows..<i] ([], None) = (tp, cur)"
      by (cases "fold ?f [headerOffset rows..<i] ([], None)")
    let ?pre = "pushLast (tp, cur)"
    have pre: "(case cur of Some t \<Rightarrow> tp @ [t] | None \<Rightarrow> tp) = ?pre"
      by (cases cur) simp_all
    have "parseTopics rows = pushLast (fold ?f [Suc i..<length rows] (?pre, Some ?new))"
      using parseTopics_split [OF h(1,2)] by (simp only: st h(3) step pre)
    moreover obtain ws post where
      "pushLast (fold ?f [Suc i..<length rows] (?pre, Some ?new))
         = ?pre @ ?new\<lparr>words := words ?new @ ws\<rparr> # post"
      using fold_parse_current [of rows "[Suc i..<length rows]" ?pre ?new] by blast
    ultimately have e: "parseTopics rows = ?pre @ ?new\<lparr>words := rowWords row (i + 1) @ ws\<rparr> # post"
      by simp
    have "rowNumber w \<le> i" if "t \<in> set ?pre" "w \<in> set (words t)" for t w
    proof -
      from that have "w \<in> set (allWords ?pre)" by (rule mem_allWords)
      then show ?thesis using prefix_words_bound [of w rows "headerOffset rows" i]
        by (simp only: st)
    qed
    with e show ?thesis by blast
  qed
  have wd: "\<exists>w. parseWord row (i + 1) = Some w \<and> rowWords row (i + 1) = [w]"
    if "trim (getCell row 3) \<noteq> ''''"
  proof -
    from that have "parseWord row (i + 1) \<noteq> None"
      by (simp add: parseWord_None_iff trim_getCell)
    then show ?thesis by (auto simp: rowWords_def)
  qed
  show ?thesis using step glob wd by simp
qed

theorem topic_start_row_witness:
  "parseRow (exampleRows ! 1) 1 ([], Some topicT2)
     = ([topicT2], Some \<lparr> name = ''T1'', startRow = 1 + 1, words = [wordApple], statistics = None \<rparr>)
   \<and> (\<exists>w. parseWord (exampleRows ! 1) (1 + 1) = Some w \<and> [wordApple] = [w])
   \<and> (\<exists>pre ws post.
         parseTopics exampleRows =
           pre @ \<lparr> name = ''T1'', startRow = 1 + 1, words = [wordApple] @ ws, statistics = None \<rparr> # post
         \<and> (\<forall>t\<in>set pre. \<forall>w\<in>set (words t). rowNumber w \<le> 1))"
proof -
  have h1: "\<not> isEmptyRow (exampleRows ! 1)" by code_simp
  have h2: "trim (getCell (exampleRows ! 1) 1) \<noteq> ''''" by code_simp
  have h3: "headerOffset exampleRows \<le> 1 \<and> 1 < length exampleRows \<and> exampleRows ! 1 = exampleRows ! 1"
    by code_simp
  have h4: "trim (getCell (exampleRows ! 1) 3) \<noteq> ''''" by code_simp
  have n: "trim (getCell (exampleRows ! 1) 1) = ''T1''" by code_simp
  have r: "rowWords (exampleRows ! 1) (1 + 1) = [wordApple]" by code_simp
  note T = topic_start_row [OF h1 h2, of 1 "[]" "Some topicT2" exampleRows, unfolded n r]
  from T h3 h4 show ?thesis by simp
qed

text \<open>
  Claim C3, as stated, fails: a non-empty row with an empty column-B cell and an empty
  word cell, met before any topic row, creates the \<open>Uncategorized\<close> topic all the same.
  Here the only row carries the order \<open>1\<close> and the flag \<open>N\<close> and no word, and the output
  has an \<open>Uncategorized\<close> topic with no words.
\<close>

theorem uncategorized_without_word:
  "getCell [JStr ''1'', JStr '''', JStr ''N'', JStr ''''] 3 = ''''
   \<and> parseTopics [[JStr ''1'', JStr '''', JStr ''N'', JStr '''']]
       = [\<lparr> name = ''Uncategorized'', startRow = 1, words = [], statistics = None \<rparr>]"
  by code_simp

text \<open>
  Claim C3, amended. The synthetic \<open>Uncategorized\<close> topic is created exactly when the
  first non-empty row of the pass has an empty column-B cell, whether or not that row
  has a word. It is then the first topic of the output, its \<open>startRow\<close> is that row's
  1-based index, and the row's word, if there is one, is its first word. Conversely a
  topic of the output named \<open>Uncategorized\<close> starts at such a row, or at a row whose
  column-B cell reads \<open>Uncategorized\<close>.
\<close>

theorem uncategorized_topic:
  "(headerOffset rows \<le> i \<and> i < length rows
      \<and> (\<forall>k. headerOffset rows \<le> k \<and> k < i \<longrightarrow> isEmptyRow (rows ! k))
      \<and> \<not> isEmptyRow (rows ! i) \<and> getCell (rows ! i) 1 = '''' \<longrightarrow>
      (\<exists>ws post. parseTopics rows =
          \<lparr> name = ''Uncategorized'', startRow = i + 1,
            words = rowWords (rows ! i) (i + 1) @ ws, statistics = None \<rparr> # post))
   \<and> (t \<in> set (parseTopics rows) \<and> name t = ''Uncategorized'' \<longrightarrow>
      (\<exists>j. headerOffset rows \<le> j \<and> j < length rows \<and> startRow t = j + 1
           \<and> \<not> isEmptyRow (rows ! j)
           \<and> (getCell (rows ! j) 1 = ''Uncategorized''
              \<or> getCell (rows ! j) 1 = ''''
                 \<and> (\<forall>k. headerOffset rows \<le> k \<and> k < j \<longrightarrow> isEmptyRow (rows ! k)))))"
proof -
  have A: "\<exists>ws post. parseTopics rows =
          \<lparr> name = ''Uncategorized'', startRow = i + 1,
            words = rowWords (rows ! i) (i + 1) @ ws, statistics = None \<rparr> # post"
    if a: "headerOffset rows \<le> i \<and> i < length rows
      \<and> (\<forall>k. headerOffset rows \<le> k \<and> k < i \<longrightarrow> isEmptyRow (rows ! k))
      \<and> \<not> isEmptyRow (rows ! i) \<and> getCell (rows ! i) 1 = ''''"
  proof -
    let ?f = "\<lambda>j. parseRow (rows ! j) j"
    let ?u = "\<lparr> name = ''Uncategorized'', startRow = i + 1,
                words = rowWords (rows ! i) (i + 1), statistics = None \<rparr>"
    from a have "fold ?f [headerOffset rows..<i] ([], None) = ([], None)"
      by (intro fold_empty_rows) simp
    moreover from a have "parseRow (rows ! i) i ([], None) = ([], Some ?u)"
      by (simp add: parseRow_uncategorized)
    ultimately have "parseTopics rows = pushLast (fold ?f [Suc i..<length rows] ([], Some ?u))"
      using a parseTopics_split [of rows i] by simp
    moreover obtain ws post where
      "pushLast (fold ?f [Suc i..<length rows] ([], Some ?u)) = [] @ ?u\<lparr>words := words ?u @ ws\<rparr> # post"
      using fold_parse_current [of rows "[Suc i..<length rows]" "[]" ?u] by blast
    ultimately have "parseTopics rows = ?u\<lparr>words := rowWords (rows ! i) (i + 1) @ ws\<rparr> # post"
      by simp
    then show ?thesis by auto
  qed
  have B: "\<exists>j. headerOffset rows \<le> j \<and> j < length rows \<and> startRow t = j + 1
           \<and> \<not> isEmptyRow (rows ! j)
           \<and> (getCell (rows ! j) 1 = ''Uncategorized''
              \<or> getCell (rows ! j) 1 = ''''
                 \<and> (\<forall>k. headerOffset rows \<le> k \<and> k < j \<longrightarrow> isEmptyRow (rows ! k)))"
    if b: "t \<in> set (parseTopics rows) \<and> name t = ''Uncategorized''"
  proof -
    from b have "t \<in> set (parseTopics rows)" by simp
    from topic_origin [OF this] b show ?thesis by metis
  qed
  from A B show ?thesis by blast
qed

theorem uncategorized_topic_witness:
  "(\<exists>ws post. parseTopics uncategorizedRows =
       \<lparr> name = ''Uncategorized'', startRow = 1 + 1,
         words = rowWords (uncategorizedRows ! 1) (1 + 1) @ ws, statistics = None \<rparr> # post)
   \<and> (\<exists>j. headerOffset uncategorizedRows \<le> j \<and> j < length uncategorizedRows
          \<and> startRow uncategorizedTopic = j + 1 \<and> \<not> isEmptyRow (uncategorizedRows ! j)
          \<and> (getCell (uncategorizedRows ! j) 1 = ''Uncategorized''
             \<or> getCell (uncategorizedRows ! j) 1 = ''''
                \<and> (\<forall>k. headerOffset uncategorizedRows \<le> k \<and> k < j \<longrightarrow> isEmptyRow (uncategorizedRows ! k))))"
proof -
  have e0: "isEmptyRow (uncategorizedRows ! 0)" by code_simp
  have o: "headerOffset uncategorizedRows \<le> 1" by code_simp
  have b: "\<forall>k. headerOffset uncategorizedRows \<le> k \<and> k < 1 \<longrightarrow> isEmptyRow (uncategorizedRows ! k)"
    using e0 by simp
  have l: "1 < length uncategorizedRows" by code_simp
  have ne: "\<not> isEmptyRow (uncategorizedRows ! 1)" by code_simp
  have c: "getCell (uncategorizedRows ! 1) 1 = ''''" by code_simp
  have p: "parseTopics uncategorizedRows = [uncategorizedTopic]" by code_simp
  have m: "uncategorizedTopic \<in> set (parseTopics uncategorizedRows)
           \<and> name uncategorizedTopic = ''Uncategorized''"
    by (simp add: p) (simp add: uncategorizedTopic_def)
  note T = uncategorized_topic [of uncategorizedRows 1 uncategorizedTopic]
  from o l b ne c have h: "headerOffset uncategorizedRows \<le> 1 \<and> 1 < length uncategorizedRows
      \<and> (\<forall>k. headerOffset uncategorizedRows \<le> k \<and> k < 1 \<longrightarrow> isEmptyRow (uncategorizedRows ! k))
      \<and> \<not> isEmptyRow (uncategorizedRows ! 1) \<and> getCell (uncategorizedRows ! 1) 1 = ''''"
    by (intro conjI)
  from T [THEN conjunct1, THEN mp, OF h] T [THEN conjunct2, THEN mp, OF m]
  show ?thesis by (rule conjI)
qed

text \<open>
  Claim C7. A row looks like a header exactly when its first cell equals \<open>order\<close>, or
  its second cell equals \<open>topic\<close> or \<open>session\<close>, up to case, the cells read through
  \<open>getCell\<close>, which is the cell normalization rule (last conjunct). The pass starts at index 1 when row 0 looks like a header and at index 0
  otherwise; for a non-empty row 0 this means that the row is skipped as a header (the
  output is what it would be with a blank row in its place) if and only if it looks like
  one. A row is empty exactly when all its cells are null, undefined or white space only;
  the loop body leaves the state unchanged on such a row, and the output does not change
  when the row is replaced by a row without cells.
\<close>

theorem header_and_empty_rows:
  "(isHeaderRow row \<longleftrightarrow>
      equalsIgnoreCase (getCell row 0) ''order'' \<or> equalsIgnoreCase (getCell row 1) ''topic''
      \<or> equalsIgnoreCase (getCell row 1) ''session'')
   \<and> parseTopics rows =
       pushLast (parseLoop rows (if rows \<noteq> [] \<and> isHeaderRow (rows ! 0) then 1 else 0) ([], None))
   \<and> (rows \<noteq> [] \<and> \<not> isEmptyRow (rows ! 0) \<longrightarrow>
        (isHeaderRow (rows ! 0) \<longleftrightarrow> parseTopics rows = parseTopics ([] # tl rows)))
   \<and> (isEmptyRow row \<longleftrightarrow> list_all blankCell row)
   \<and> (isEmptyRow row \<longrightarrow> parseRow row i st = st)
   \<and> (i < length rows \<and> isEmptyRow (rows ! i) \<longrightarrow> parseTopics (rows[i := []]) = parseTopics rows)
   \<and> getCell row k = (if k < length row then normalizeCell (row ! k) else '''')"
proof -
  have skip: "isHeaderRow (rows ! 0) \<longleftrightarrow> parseTopics rows = parseTopics ([] # tl rows)"
    if ne: "rows \<noteq> []" "\<not> isEmptyRow (rows ! 0)"
  proof
    assume "isHeaderRow (rows ! 0)"
    then have "parseTopics (rows ! 0 # tl rows) = parseTopics ([] # tl rows)"
      by (rule parseTopics_header_skip)
    with ne(1) show "parseTopics rows = parseTopics ([] # tl rows)"
      by (cases rows) simp_all
  next
    assume e: "parseTopics rows = parseTopics ([] # tl rows)"
    show "isHeaderRow (rows ! 0)"
    proof (rule ccontr)
      assume "\<not> isHeaderRow (rows ! 0)"
      from parseTopics_row0_processed [OF ne(1) this ne(2)] obtain t post
        where t: "parseTopics rows = t # post" "startRow t = 1" by blast
      from t(1) have "t \<in> set (parseTopics rows)" by simp
      then have "t \<in> set (parseTopics ([] # tl rows))" by (simp only: e)
      from topic_origin [OF this] obtain j where
        "startRow t = j + 1" "\<not> isEmptyRow (([] # tl rows) ! j)" by blast
      with t(2) show False by simp
    qed
  qed
  show ?thesis
  proof (intro conjI)
    show "isHeaderRow row \<longleftrightarrow>
      equalsIgnoreCase (getCell row 0) ''order'' \<or> equalsIgnoreCase (getCell row 1) ''topic''
      \<or> equalsIgnoreCase (getCell row 1) ''session''"
      by (rule isHeaderRow_iff)
    show "parseTopics rows =
       pushLast (parseLoop rows (if rows \<noteq> [] \<and> isHeaderRow (rows ! 0) then 1 else 0) ([], None))"
      by (simp only: parseTopics_def headerOffset_cases)
    show "rows \<noteq> [] \<and> \<not> isEmptyRow (rows ! 0) \<longrightarrow>
        (isHeaderRow (rows ! 0) \<longleftrightarrow> parseTopics rows = parseTopics ([] # tl rows))"
    proof (rule impI)
      assume "rows \<noteq> [] \<and> \<not> isEmptyRow (rows ! 0)"
      then show "isHeaderRow (rows ! 0) \<longleftrightarrow> parseTopics rows = parseTopics ([] # tl rows)"
        by (intro skip) simp_all
    qed
    show "isEmptyRow row \<longleftrightarrow> list_all blankCell row" by (rule isEmptyRow_iff)
    show "isEmptyRow row \<longrightarrow> parseRow row i st = st" by (simp add: parseRow_empty)
    show "i < length rows \<and> isEmptyRow (rows ! i) \<longrightarrow> parseTopics (rows[i := []]) = parseTopics rows"
      by (simp add: parseTopics_blank_update)
    show "getCell row k = (if k < length row then normalizeCell (row ! k) else '''')"
      by (simp add: getCell_def normalizeCell_def Let_def)
  qed
qed

theorem header_and_empty_rows_witness:
  "isHeaderRow (exampleRows ! 0)
   \<and> parseTopics exampleRows = parseTopics ([] # tl exampleRows)
   \<and> isEmptyRow (exampleRows ! 2)
   \<and> parseRow (exampleRows ! 2) 2 ([], Some topicT2) = ([], Some topicT2)
   \<and> parseTopics (exampleRows[2 := []]) = parseTopics exampleRows"
proof -
  have h: "isHeaderRow (exampleRows ! 0)" by code_simp
  have n: "exampleRows \<noteq> [] \<and> \<not> isEmptyRow (exampleRows ! 0)" by code_simp
  have e: "isEmptyRow (exampleRows ! 2)" by code_simp
  have l: "2 < length exampleRows \<and> isEmptyRow (exampleRows ! 2)" by code_simp
  note T = header_and_empty_rows [of "exampleRows ! 2" exampleRows 2 "([], Some topicT2)"]
  from T n h have 1: "parseTopics exampleRows = parseTopics ([] # tl exampleRows)" by blast
  from T e have 2: "parseRow (exampleRows ! 2) 2 ([], Some topicT2) = ([], Some topicT2)" by blast
  from T l have 3: "parseTopics (exampleRows[2 := []]) = parseTopics exampleRows" by blast
  from h 1 e 2 3 show ?thesis by (intro conjI)
qed

text \<open>
  Claim C8. The word records of the output, in order, are those of the rows of the pass,
  each built with the row's 1-based position in the original grid as \<open>rowNumber\<close>; so
  every word record of the output comes from the row at its \<open>rowNumber\<close>, and every row
  of the pass with a non-empty word cell has its record in the output. \<open>parseWord\<close>
  builds a record only when the column-D cell is non-empty after trimming, and the
  record's \<open>word\<close> is the trimmed cell.
\<close>

theorem word_row_numbers:
  "allWords (parseTopics rows) =
     concat (map (\<lambda>j. rowWords (rows ! j) (j + 1)) [headerOffset rows..<length rows])
   \<and> (w \<in> set (allWords (parseTopics rows)) \<longrightarrow>
        (\<exists>j. headerOffset rows \<le> j \<and> j < length rows \<and> rowNumber w = j + 1
            \<and> parseWord (rows ! j) (j + 1) = Some w))
   \<and> (headerOffset rows \<le> j \<and> j < length rows \<and> trim (getCell (rows ! j) 3) \<noteq> '''' \<longrightarrow>
        (\<exists>w\<in>set (allWords (parseTopics rows)).
            parseWord (rows ! j) (j + 1) = Some w \<and> rowNumber w = j + 1))
   \<and> (parseWord row n = Some w \<longrightarrow>
        trim (getCell row 3) \<noteq> '''' \<and> word w = trim (getCell row 3) \<and> rowNumber w = n)
   \<and> (trim (getCell row' 3) = '''' \<longrightarrow> parseWord row' n' = None)"
proof -
  have w1: "\<exists>j. headerOffset rows \<le> j \<and> j < length rows \<and> rowNumber w = j + 1
            \<and> parseWord (rows ! j) (j + 1) = Some w"
    if "w \<in> set (allWords (parseTopics rows))"
  proof -
    from that obtain j where j: "headerOffset rows \<le> j" "j < length rows"
      and w: "w \<in> set (rowWords (rows ! j) (j + 1))"
      by (auto simp: allWords_parseTopics)
    from w have "parseWord (rows ! j) (j + 1) = Some w"
      by (cases "parseWord (rows ! j) (j + 1)") (simp_all add: rowWords_def)
    moreover from w have "rowNumber w = j + 1" by (rule rowWords_rowNumber)
    ultimately show ?thesis using j by blast
  qed
  have w2: "\<exists>w\<in>set (allWords (parseTopics rows)).
            parseWord (rows ! j) (j + 1) = Some w \<and> rowNumber w = j + 1"
    if a: "headerOffset rows \<le> j \<and> j < length rows \<and> trim (getCell (rows ! j) 3) \<noteq> ''''"
  proof -
    from a have "parseWord (rows ! j) (j + 1) \<noteq> None"
      by (simp add: parseWord_None_iff trim_getCell)
    then obtain w where w: "parseWord (rows ! j) (j + 1) = Some w" by blast
    then have "w \<in> set (rowWords (rows ! j) (j + 1))" by (simp add: rowWords_def)
    with a have "w \<in> set (allWords (parseTopics rows))"
      by (auto simp: allWords_parseTopics)
    moreover from w have "rowNumber w = j + 1" by (simp add: parseWord_Some_iff)
    ultimately show ?thesis using w by blast
  qed
  have w3: "trim (getCell row 3) \<noteq> '''' \<and> word w = trim (getCell row 3) \<and> rowNumber w = n"
    if "parseWord row n = Some w"
    using that by (simp add: parseWord_Some_iff trim_getCell)
  have w4: "parseWord row' n' = None" if "trim (getCell row' 3) = ''''"
    using that by (simp add: parseWord_None_iff trim_getCell)
  show ?thesis
  proof (intro conjI)
    show "allWords (parseTopics rows) =
       concat (map (\<lambda>j. rowWords (rows ! j) (j + 1)) [headerOffset rows..<length rows])"
      by (rule allWords_parseTopics)
    show "w \<in> set (allWords (parseTopics rows)) \<longrightarrow>
        (\<exists>j. headerOffset rows \<le> j \<and> j < length rows \<and> rowNumber w = j + 1
            \<and> parseWord (rows ! j) (j + 1) = Some w)"
      by (rule impI) (rule w1)
    show "headerOffset rows \<le> j \<and> j < length rows \<and> trim (getCell (rows ! j) 3) \<noteq> '''' \<longrightarrow>
        (\<exists>w\<in>set (allWords (parseTopics rows)).
            parseWord (rows ! j) (j + 1) = Some w \<and> rowNumber w = j + 1)"
      by (rule impI) (rule w2)
    show "parseWord row n = Some w \<longrightarrow>
        trim (getCell row 3) \<noteq> '''' \<and> word w = trim (getCell row 3) \<and> rowNumber w = n"
      by (rule impI) (rule w3)
    show "trim (getCell row' 3) = '''' \<longrightarrow> parseWord row' n' = None"
      by (rule impI) (rule w4)
  qed
qed

theorem word_row_numbers_witness:
  "(\<exists>j. headerOffset exampleRows \<le> j \<and> j < length exampleRows \<and> rowNumber wordBanana = j + 1
        \<and> parseWord (exampleRows ! j) (j + 1) = Some wordBanana)
   \<and> (\<exists>w\<in>set (allWords (parseTopics exampleRows)).
        parseWord (exampleRows ! 3) (3 + 1) = Some w \<and> rowNumber w = 3 + 1)
   \<and> word wordBanana = trim (getCell (exampleRows ! 3) 3) \<and> rowNumber wordBanana = 4
   \<and> parseWord (exampleRows ! 4) 5 = None"
proof -
  have a: "wordBanana \<in> set (allWords (parseTopics exampleRows))" by code_simp
  have b: "headerOffset exampleRows \<le> 3 \<and> 3 < length exampleRows
           \<and> trim (getCell (exampleRows ! 3) 3) \<noteq> ''''"
    by code_simp
  have c: "parseWord (exampleRows ! 3) 4 = Some wordBanana" by code_simp
  have d: "trim (getCell (exampleRows ! 4) 3) = ''''" by code_simp
  note T = word_row_numbers [of exampleRows wordBanana 3 "exampleRows ! 3" 4 "exampleRows ! 4" 5]
  from T a have 1: "\<exists>j. headerOffset exampleRows \<le> j \<and> j < length exampleRows \<and> rowNumber wordBanana = j + 1
        \<and> parseWord (exampleRows ! j) (j + 1) = Some wordBanana" by blast
  from T b have 2: "\<exists>w\<in>set (allWords (parseTopics exampleRows)).
        parseWord (exampleRows ! 3) (3 + 1) = Some w \<and> rowNumber w = 3 + 1" by blast
  from T c have 3: "word wordBanana = trim (getCell (exampleRows ! 3) 3) \<and> rowNumber wordBanana = 4"
    by blast
  from T d have 4: "parseWord (exampleRows ! 4) 5 = None" by blast
  from 1 2 3 4 show ?thesis by (intro conjI) simp_all
qed

section \<open>The claims about the orchestration\<close>

text \<open>
  Claim C5. \<open>transformVocabData\<close> returns its input as it is when the input is absent,
  or its \<open>worksheets\<close> are absent or empty. Otherwise the output has one worksheet for
  each worksheet of the input, in the same order, and a worksheet that carries an error
  marker (an \<open>error\<close> field that the guard \<open>worksheet.error\<close> finds truthy), or whose
  \<open>values\<close> are absent or empty, stands unchanged at its position: it is passed through
  and never reaches \<open>parseTopics\<close>.
\<close>

theorem error_and_empty_passthrough:
  "transformVocabData None = Unchanged None
   \<and> (worksheets d = None \<or> worksheets d = Some [] \<longrightarrow>
        transformVocabData (Some d) = Unchanged (Some d))
   \<and> (worksheets d' = Some wss \<and> i < length wss
        \<and> (truthy (ws_error (wss ! i)) \<or> ws_values (wss ! i) = None \<or> ws_values (wss ! i) = Some [])
      \<longrightarrow> (\<exists>r. transformVocabData (Some d') = Result r
              \<and> length (res_worksheets r) = length wss
              \<and> res_worksheets r ! i = PassedThrough (wss ! i)))"
proof (intro conjI)
  show "transformVocabData None = Unchanged None"
    by (simp add: transformVocabData_def)
  show "worksheets d = None \<or> worksheets d = Some [] \<longrightarrow>
        transformVocabData (Some d) = Unchanged (Some d)"
    by (auto simp: transformVocabData_def)
  show "worksheets d' = Some wss \<and> i < length wss
        \<and> (truthy (ws_error (wss ! i)) \<or> ws_values (wss ! i) = None \<or> ws_values (wss ! i) = Some [])
      \<longrightarrow> (\<exists>r. transformVocabData (Some d') = Result r
              \<and> length (res_worksheets r) = length wss
              \<and> res_worksheets r ! i = PassedThrough (wss ! i))"
  proof (rule impI)
    assume a: "worksheets d' = Some wss \<and> i < length wss
        \<and> (truthy (ws_error (wss ! i)) \<or> ws_values (wss ! i) = None \<or> ws_values (wss ! i) = Some [])"
    then have ne: "wss \<noteq> []" by auto
    from a have w: "worksheets d' = Some wss" by simp
    from a have "transformWorksheet (wss ! i) = PassedThrough (wss ! i)"
      by (auto simp: transformWorksheet_def)
    with a show "\<exists>r. transformVocabData (Some d') = Result r
              \<and> length (res_worksheets r) = length wss
              \<and> res_worksheets r ! i = PassedThrough (wss ! i)"
      by (simp add: transformVocabData_Result [OF w ne])
  qed
qed

theorem error_and_empty_passthrough_witness:
  "transformVocabData (Some emptyData) = Unchanged (Some emptyData)
   \<and> (\<exists>r. transformVocabData (Some exampleData) = Result r
          \<and> length (res_worksheets r) = length [failedWorksheet, exampleWorksheet]
          \<and> res_worksheets r ! 0 = PassedThrough ([failedWorksheet, exampleWorksheet] ! 0))"
proof -
  have a: "worksheets emptyData = None \<or> worksheets emptyData = Some []"
    by (simp add: emptyData_def)
  have b: "worksheets exampleData = Some [failedWorksheet, exampleWorksheet]
           \<and> 0 < length [failedWorksheet, exampleWorksheet]
           \<and> (truthy (ws_error ([failedWorksheet, exampleWorksheet] ! 0))
              \<or> ws_values ([failedWorksheet, exampleWorksheet] ! 0) = None
              \<or> ws_values ([failedWorksheet, exampleWorksheet] ! 0) = Some [])"
    by (simp add: exampleData_def failedWorksheet_def)
  note T = error_and_empty_passthrough [of emptyData exampleData "[failedWorksheet, exampleWorksheet]" 0]
  from T [THEN conjunct2, THEN conjunct1, THEN mp, OF a]
       T [THEN conjunct2, THEN conjunct2, THEN mp, OF b]
  show ?thesis by (rule conjI)
qed

text \<open>
  Claim C6, as stated, fails: \<open>_cachedAt\<close> and \<open>_fetchedAt\<close> are copied under the guard
  \<open>if (excelData._cachedAt)\<close>, which tests truthiness, so a field that is present with a
  falsy value is dropped. Here \<open>_cachedAt\<close> is the number \<open>0\<close> on the input and absent
  from the output.
\<close>

theorem metadata_falsy_dropped:
  "cachedAt staleData = JNum 0
   \<and> transformVocabData (Some staleData) =
       Result \<lparr> res_fileName = JStr ''vocab.xlsx'', res_fileSize = JNum 1024,
                res_worksheets = [PassedThrough failedWorksheet],
                res_cached = JBool True, res_cachedAt = JUndefined, res_fetchedAt = JUndefined \<rparr>"
  by (simp add: staleData_def transformVocabData_def transformWorksheet_def failedWorksheet_def)

text \<open>
  Claim C6, amended. On every input that does not take the identity pass-through,
  \<open>_cached\<close> is in the output with its input value whenever it is not undefined on the
  input, \<open>_cachedAt\<close> and \<open>_fetchedAt\<close> are in the output with their input values
  whenever they are truthy on the input, and each is absent from the output otherwise
  (an absent field reads \<open>JUndefined\<close>). The other fields of the output do not depend
  on the three metadata fields: changing these on the input changes nothing else.
\<close>

theorem metadata_propagation:
  assumes "worksheets d = Some wss" and "wss \<noteq> []"
  shows "\<exists>r. transformVocabData (Some d) = Result r
           \<and> res_cached r = cached d
           \<and> res_cachedAt r = (if truthy (cachedAt d) then cachedAt d else JUndefined)
           \<and> res_fetchedAt r = (if truthy (fetchedAt d) then fetchedAt d else JUndefined)
           \<and> res_fileName r = fileName d \<and> res_fileSize r = fileSize d
           \<and> res_worksheets r = map transformWorksheet wss
           \<and> transformVocabData (Some (d\<lparr>cached := a, cachedAt := b, fetchedAt := c\<rparr>))
               = Result (r\<lparr>res_cached := a,
                           res_cachedAt := (if truthy b then b else JUndefined),
                           res_fetchedAt := (if truthy c then c else JUndefined)\<rparr>)"
proof -
  have "worksheets (d\<lparr>cached := a, cachedAt := b, fetchedAt := c\<rparr>) = Some wss"
    using assms(1) by simp
  from transformVocabData_Result [OF this assms(2)] transformVocabData_Result [OF assms]
  show ?thesis by simp
qed

theorem metadata_propagation_witness:
  "\<exists>r. transformVocabData (Some exampleData) = Result r
           \<and> res_cached r = JBool False
           \<and> res_cachedAt r = JUndefined
           \<and> res_fetchedAt r = JStr ''2026-02-09''"
proof -
  have 1: "worksheets exampleData = Some [failedWorksheet, exampleWorksheet]"
    by (simp add: exampleData_def)
  have 2: "[failedWorksheet, exampleWorksheet] \<noteq> []" by simp
  from metadata_propagation [OF 1 2, of "JBool True" "JNum 0" JNull] obtain r where
    "transformVocabData (Some exampleData) = Result r"
    "res_cached r = cached exampleData"
    "res_cachedAt r = (if truthy (cachedAt exampleData) then cachedAt exampleData else JUndefined)"
    "res_fetchedAt r = (if truthy (fetchedAt exampleData) then fetchedAt exampleData else JUndefined)"
    by blast
  then show ?thesis by (auto simp: exampleData_def)
qed

end
